theory Spec2Isabelle
  imports Main
begin

section \<open>JavaScript objects as ordered property lists\<close>

text \<open>
  The preview utilities work on plain JavaScript objects: the option mapping
  \<^verbatim>\<open>propOptions\<close>, the combinations built from it and the props handed to the
  serializer. An object is modelled by the list of its own enumerable string-named
  properties, in the order in which \<^verbatim>\<open>Object.keys\<close> and \<^verbatim>\<open>Object.entries\<close>
  enumerate them: names that are array indices first, in ascending numeric order,
  then all other names in the order in which they were created.
\<close>

type_synonym 'v jsobject = "(string \<times> 'v) list"

definition digit_value :: "char \<Rightarrow> nat option" where
  "digit_value c =
     (let n = (of_char c :: nat) in if 48 \<le> n \<and> n \<le> 57 then Some (n - 48) else None)"

fun decimal_value :: "nat \<Rightarrow> string \<Rightarrow> nat option" where
  "decimal_value acc [] = Some acc"
| "decimal_value acc (c # cs) =
     (case digit_value c of None \<Rightarrow> None | Some d \<Rightarrow> decimal_value (10 * acc + d) cs)"

definition array_index :: "string \<Rightarrow> nat option" where
  \<comment> \<open>A property name is an array index when it is the canonical decimal form of an
      integer from 0 to \<open>2\<^sup>3\<^sup>2 - 2\<close>.\<close>
  "array_index k =
     (case k of
        [] \<Rightarrow> None
      | c # cs \<Rightarrow>
          if c = CHR ''0'' \<and> cs \<noteq> [] then None
          else (case decimal_value 0 k of
                  None \<Rightarrow> None
                | Some n \<Rightarrow> if n < 4294967295 then Some n else None))"

definition comes_before :: "string \<Rightarrow> string \<Rightarrow> bool" where
  \<comment> \<open>A newly created property \<open>k\<close> is enumerated before an existing property \<open>k'\<close>.\<close>
  "comes_before k k' =
     (case array_index k of
        None \<Rightarrow> False
      | Some n \<Rightarrow> (case array_index k' of None \<Rightarrow> True | Some n' \<Rightarrow> n < n'))"

definition Object_keys :: "'v jsobject \<Rightarrow> string list" where
  "Object_keys obj = map fst obj"

definition Object_entries :: "'v jsobject \<Rightarrow> (string \<times> 'v) list" where
  "Object_entries obj = obj"

definition get_prop :: "'v jsobject \<Rightarrow> string \<Rightarrow> 'v option" where
  \<comment> \<open>\<^verbatim>\<open>obj[key]\<close>; \<open>None\<close> is the \<^verbatim>\<open>undefined\<close> of a missing property.\<close>
  "get_prop obj k = map_of obj k"

fun insert_prop :: "string \<Rightarrow> 'v \<Rightarrow> 'v jsobject \<Rightarrow> 'v jsobject" where
  "insert_prop k v [] = [(k, v)]"
| "insert_prop k v (p # ps) =
     (if comes_before k (fst p) then (k, v) # p # ps else p # insert_prop k v ps)"

definition define_prop :: "'v jsobject \<Rightarrow> string \<Rightarrow> 'v \<Rightarrow> 'v jsobject" where
  \<comment> \<open>Defining a property (an entry of an object literal, \<^verbatim>\<open>[key]: value\<close>, or one
      property copied by a spread): an existing property keeps its place and takes
      the new value, a new one is created.\<close>
  "define_prop obj k v =
     (if k \<in> set (map fst obj)
      then map (\<lambda>p. if fst p = k then (k, v) else p) obj
      else insert_prop k v obj)"

definition spread :: "'v jsobject \<Rightarrow> 'v jsobject \<Rightarrow> 'v jsobject" where
  \<comment> \<open>\<^verbatim>\<open>{ ...target, ...source }\<close> continues the literal \<open>target\<close> with the
      properties of \<open>source\<close>, in their order.\<close>
  "spread target source = foldl (\<lambda>obj p. define_prop obj (fst p) (snd p)) target (Object_entries source)"

definition object_literal :: "(string \<times> 'v) list \<Rightarrow> 'v jsobject" where
  \<comment> \<open>The object denoted by the literal \<^verbatim>\<open>{ k1: v1, ..., kn: vn }\<close>, whose
      property declarations are evaluated from left to right. (The entry
      \<^verbatim>\<open>__proto__: v\<close>, which sets the prototype, declares no property.)\<close>
  "object_literal decls = foldl (\<lambda>obj p. define_prop obj (fst p) (snd p)) [] decls"

definition wf_object :: "'v jsobject \<Rightarrow> bool" where
  \<comment> \<open>The representation invariant: names are distinct and stand in enumeration order.\<close>
  "wf_object obj =
     (distinct (map fst obj) \<and> sorted_wrt (\<lambda>k k'. \<not> comes_before k' k) (map fst obj))"

section \<open>The combination enumerator\<close>

text \<open>
  An array is the list of its elements from index 0 to its length; an index at which
  the array has no element (a hole of a sparse array, as in \<^verbatim>\<open>["x", , "z"]\<close>) is
  \<open>None\<close>. The methods that iterate over an array skip its holes.
\<close>

type_synonym 'v jsarray = "'v option list"

definition dense :: "'v list \<Rightarrow> 'v jsarray" where
  \<comment> \<open>The array literal \<^verbatim>\<open>[v1, ..., vn]\<close>.\<close>
  "dense vs = map Some vs"

text \<open>
  \<^verbatim>\<open>propOptions\<close> has type \<^verbatim>\<open>{ [K in keyof Props]?: Props[K][] }\<close>: each
  property holds a candidate array or \<^verbatim>\<open>undefined\<close> (\<open>None\<close>), which
  \<^verbatim>\<open>options[key] ?? []\<close> reads as the empty array.
\<close>

type_synonym 'v propOptions = "'v jsarray option jsobject"

definition nullish_list :: "'v jsarray option option \<Rightarrow> 'v jsarray" where
  \<comment> \<open>\<^verbatim>\<open>options[key] ?? []\<close>\<close>
  "nullish_list r = (case r of Some (Some vs) \<Rightarrow> vs | _ \<Rightarrow> [])"

definition key_at :: "string list \<Rightarrow> nat \<Rightarrow> string" where
  \<comment> \<open>\<^verbatim>\<open>keys[index]\<close> used as a property name: out of range it is
      \<^verbatim>\<open>undefined\<close>, which names the property \<^verbatim>\<open>"undefined"\<close>.\<close>
  "key_at keys index = (if index < length keys then keys ! index else ''undefined'')"

fun flatMap :: "('a \<Rightarrow> 'b list option) \<Rightarrow> 'a jsarray \<Rightarrow> 'b list option" where
  \<comment> \<open>\<^verbatim>\<open>values.flatMap(f)\<close> for a callback that returns an array without holes,
      or fails to return: the callback is called on the elements that are present,
      in index order, and the arrays it returns are concatenated.\<close>
  "flatMap f [] = Some []"
| "flatMap f (None # xs) = flatMap f xs"
| "flatMap f (Some x # xs) =
     Option.bind (f x) (\<lambda>ys. Option.bind (flatMap f xs) (\<lambda>zs. Some (ys @ zs)))"

lemma flatMap_mono [partial_function_mono]:
  assumes "\<And>x. mono_option (\<lambda>f. B f x)"
  shows "mono_option (\<lambda>f. flatMap (B f) xs)"
proof (induction xs)
  case Nil
  show ?case by (simp add: partial_function_mono)
next
  case (Cons x xs)
  then show ?case by (cases x) (auto intro!: partial_function_mono assms)
qed

text \<open>
  The local closure \<^verbatim>\<open>combine\<close>, with the variables it captures
  (\<^verbatim>\<open>options\<close> and \<^verbatim>\<open>keys\<close>) as parameters. The source tests
  \<^verbatim>\<open>index === keys.length\<close> and recurses otherwise, so a run need not end for
  arbitrary arguments; the result \<open>None\<close> stands for a run that does not return.
  The object \<^verbatim>\<open>{ ...current, [key]: value }\<close> is a copy of \<open>current\<close> in
  which the property \<open>key\<close> is then defined.
\<close>

partial_function (option) combine ::
  "'v propOptions \<Rightarrow> string list \<Rightarrow> nat \<Rightarrow> 'v jsobject \<Rightarrow> 'v jsobject list option" where
  "combine options keys index current =
     (if index = length keys then Some [current]
      else
        let key = key_at keys index;
            values = nullish_list (get_prop options key)
        in flatMap (\<lambda>value. combine options keys (index + 1)
                                (define_prop (spread [] current) key value)) values)"

definition getAllCombinations :: "'v propOptions \<Rightarrow> 'v jsobject list option" where
  "getAllCombinations options =
     (let keys = Object_keys options
      in if length keys = 0 then Some [] else combine options keys 0 [])"

section \<open>JavaScript values\<close>

text \<open>
  Prop values are arbitrary JavaScript values (\<^verbatim>\<open>Record<string, any>\<close>).

  \<^item> The finite numbers of the model are the safe integers, from \<open>-(2\<^sup>5\<^sup>3 - 1)\<close> to
    \<open>2\<^sup>5\<^sup>3 - 1\<close>, which are numbers exactly and which \<^verbatim>\<open>JSON.stringify\<close>
    prints in plain decimal; other finite numbers are outside the model.
  \<^item> Functions and symbols are opaque.
  \<^item> Objects are plain data objects, without getters and without a \<^verbatim>\<open>toJSON\<close>
    method; a hole of an array value reads as \<^verbatim>\<open>undefined\<close>.
  \<^item> An object or array may contain itself. A value is given by the tree that a
    traversal from it walks, and \<open>JCircular\<close> is the leaf at which the traversal
    meets again an object or array that contains the place where it stands.
  \<^item> A React element is an object whose \<^verbatim>\<open>$$typeof\<close> property holds a symbol.
\<close>

typedef safe_integer = "{i :: int. - 9007199254740991 \<le> i \<and> i \<le> 9007199254740991}"
  by (rule exI [of _ 0]) simp

datatype jsnumber = Finite safe_integer | NaN | PosInfinity | NegInfinity

definition number :: "int \<Rightarrow> jsnumber" where
  \<comment> \<open>The number written as the integer literal \<open>i\<close>, for a safe integer \<open>i\<close>.\<close>
  "number i = Finite (Abs_safe_integer i)"

datatype jsvalue =
    JUndefined
  | JNull
  | JBoolean bool
  | JNumber jsnumber
  | JBigInt int
  | JString string
  | JSymbol
  | JFunction
  | JArray "jsvalue list"
  | JObject "(string \<times> jsvalue) list"
  | JCircular

datatype error = TypeError

fun typeof :: "jsvalue \<Rightarrow> string" where
  "typeof JUndefined = ''undefined''"
| "typeof JNull = ''object''"
| "typeof (JBoolean b) = ''boolean''"
| "typeof (JNumber n) = ''number''"
| "typeof (JBigInt i) = ''bigint''"
| "typeof (JString s) = ''string''"
| "typeof JSymbol = ''symbol''"
| "typeof JFunction = ''function''"
| "typeof (JArray xs) = ''object''"
| "typeof (JObject ps) = ''object''"
| "typeof JCircular = ''object''"

fun truthy :: "jsvalue \<Rightarrow> bool" where
  "truthy JUndefined = False"
| "truthy JNull = False"
| "truthy (JBoolean b) = b"
| "truthy (JNumber n) =
     (case n of Finite i \<Rightarrow> Rep_safe_integer i \<noteq> 0 | NaN \<Rightarrow> False | _ \<Rightarrow> True)"
| "truthy (JBigInt i) = (i \<noteq> 0)"
| "truthy (JString s) = (s \<noteq> [])"
| "truthy _ = True"

fun optional_member :: "jsvalue \<Rightarrow> string \<Rightarrow> jsvalue" where
  \<comment> \<open>\<^verbatim>\<open>value?.name\<close>\<close>
  "optional_member (JObject ps) name = (case map_of ps name of None \<Rightarrow> JUndefined | Some x \<Rightarrow> x)"
| "optional_member _ name = JUndefined"

fun the_string :: "jsvalue \<Rightarrow> string" where
  \<comment> \<open>The text a template literal inserts for a value of type string.\<close>
  "the_string (JString s) = s"
| "the_string _ = []"

fun join :: "string \<Rightarrow> string list \<Rightarrow> string" where
  "join sep [] = []"
| "join sep [x] = x"
| "join sep (x # y # ys) = x @ sep @ join sep (y # ys)"

fun sequence :: "(error + 'a) list \<Rightarrow> error + 'a list" where
  \<comment> \<open>The results of the calls of a callback that may throw, made from left to right:
      the first exception ends the traversal.\<close>
  "sequence [] = Inr []"
| "sequence (r # rs) =
     (case r of
        Inl e \<Rightarrow> Inl e
      | Inr x \<Rightarrow> (case sequence rs of Inl e \<Rightarrow> Inl e | Inr xs \<Rightarrow> Inr (x # xs)))"

subsection \<open>\<^verbatim>\<open>JSON.stringify\<close>\<close>

definition digit_char :: "nat \<Rightarrow> char" where
  "digit_char d = char_of (48 + d)"

function show_nat :: "nat \<Rightarrow> string" where
  "show_nat n = (if n < 10 then [digit_char n] else show_nat (n div 10) @ [digit_char (n mod 10)])"
  by pat_completeness auto
termination
  by (relation "measure id") auto

definition show_int :: "int \<Rightarrow> string" where
  "show_int i = (if i < 0 then ''-'' @ show_nat (nat (- i)) else show_nat (nat i))"

definition hex_char :: "nat \<Rightarrow> char" where
  "hex_char d = ''0123456789abcdef'' ! d"

definition escape_char :: "char \<Rightarrow> string" where
  "escape_char c =
     (if c = CHR 0x22 then [CHR 0x5C, CHR 0x22]
      else if c = CHR 0x5C then [CHR 0x5C, CHR 0x5C]
      else if c = CHR 0x08 then [CHR 0x5C, CHR ''b'']
      else if c = CHR 0x0C then [CHR 0x5C, CHR ''f'']
      else if c = CHR 0x0A then [CHR 0x5C, CHR ''n'']
      else if c = CHR 0x0D then [CHR 0x5C, CHR ''r'']
      else if c = CHR 0x09 then [CHR 0x5C, CHR ''t'']
      else if (of_char c :: nat) < 32
        then [CHR 0x5C, CHR ''u'', CHR ''0'', CHR ''0'',
              hex_char ((of_char c :: nat) div 16), hex_char ((of_char c :: nat) mod 16)]
      else [c])"

definition quote :: "string \<Rightarrow> string" where
  "quote s = [CHR 0x22] @ concat (map escape_char s) @ [CHR 0x22]"

text \<open>
  \<^verbatim>\<open>JSON.stringify(value)\<close> returns \<^verbatim>\<open>undefined\<close> (\<open>None\<close>) for
  \<^verbatim>\<open>undefined\<close>, functions and symbols; inside an array such a value is written
  \<^verbatim>\<open>null\<close>, inside an object its property is left out. It throws a
  \<^verbatim>\<open>TypeError\<close> on a BigInt, and on an object or array that it is already
  writing (a cyclic value).
\<close>

fun JSON_stringify :: "jsvalue \<Rightarrow> error + string option" where
  "JSON_stringify JUndefined = Inr None"
| "JSON_stringify JNull = Inr (Some ''null'')"
| "JSON_stringify (JBoolean b) = Inr (Some (if b then ''true'' else ''false''))"
| "JSON_stringify (JNumber n) =
     Inr (Some (case n of Finite i \<Rightarrow> show_int (Rep_safe_integer i) | _ \<Rightarrow> ''null''))"
| "JSON_stringify (JBigInt i) = Inl TypeError"
| "JSON_stringify (JString s) = Inr (Some (quote s))"
| "JSON_stringify JSymbol = Inr None"
| "JSON_stringify JFunction = Inr None"
| "JSON_stringify JCircular = Inl TypeError"
| "JSON_stringify (JArray xs) =
     (case sequence (map JSON_stringify xs) of
        Inl e \<Rightarrow> Inl e
      | Inr rs \<Rightarrow>
          Inr (Some (''['' @ join '','' (map (\<lambda>r. case r of None \<Rightarrow> ''null'' | Some s \<Rightarrow> s) rs)
                     @ '']'')))"
| "JSON_stringify (JObject ps) =
     (case sequence (map (\<lambda>p. case JSON_stringify (snd p) of
                                 Inl e \<Rightarrow> Inl e
                               | Inr r \<Rightarrow> Inr (fst p, r)) ps) of
        Inl e \<Rightarrow> Inl e
      | Inr rs \<Rightarrow>
          Inr (Some (''{'' @ join '','' (concat (map (\<lambda>m. case snd m of
                                                          None \<Rightarrow> []
                                                        | Some s \<Rightarrow> [quote (fst m) @ '':'' @ s]) rs))
                     @ ''}'')))"

definition template :: "string option \<Rightarrow> string" where
  \<comment> \<open>The text a template literal inserts for the result of \<^verbatim>\<open>JSON.stringify\<close>.\<close>
  "template r = (case r of None \<Rightarrow> ''undefined'' | Some s \<Rightarrow> s)"

section \<open>The serializers\<close>

text \<open>
  Both serializers run the chain
  \<^verbatim>\<open>Object.entries(props).filter(...).map(...).filter(Boolean).join("\n")\<close>.
  The callback of \<^verbatim>\<open>map\<close> returns a string or \<^verbatim>\<open>null\<close> (\<open>None\<close>), or
  throws what \<^verbatim>\<open>JSON.stringify\<close> throws.
\<close>

definition not_empty_or_undefined :: "string \<times> jsvalue \<Rightarrow> bool" where
  \<comment> \<open>\<^verbatim>\<open>([_, value]) => value !== "" && value !== undefined\<close>\<close>
  "not_empty_or_undefined entry = (snd entry \<noteq> JString [] \<and> snd entry \<noteq> JUndefined)"

definition Boolean_filter :: "string option \<Rightarrow> bool" where
  \<comment> \<open>\<^verbatim>\<open>Boolean\<close> as the predicate of \<^verbatim>\<open>filter\<close>, on a string or null.\<close>
  "Boolean_filter r = (case r of None \<Rightarrow> False | Some s \<Rightarrow> s \<noteq> [])"

definition join_lines :: "string option list \<Rightarrow> string" where
  \<comment> \<open>\<^verbatim>\<open>.join("\n")\<close>, which writes a null element as the empty string.\<close>
  "join_lines rs = join ''\<newline>'' (map (\<lambda>r. case r of None \<Rightarrow> [] | Some s \<Rightarrow> s) rs)"

definition formatJSX_entry :: "string \<times> jsvalue \<Rightarrow> error + string option" where
  "formatJSX_entry entry =
     (let key = fst entry; value = snd entry in
      if typeof value = ''boolean'' then Inr (if truthy value then Some (''  '' @ key) else None)
      else if typeof value = ''string''
        then Inr (Some (''  '' @ key @ ''='' @ [CHR 0x22] @ the_string value @ [CHR 0x22]))
      else if typeof value = ''object'' \<and> truthy (optional_member value ''$$typeof'')
        then Inr (Some (''  '' @ key @ ''={<ReactElement />}''))
      else (case JSON_stringify value of
              Inl e \<Rightarrow> Inl e
            | Inr r \<Rightarrow> Inr (Some (''  '' @ key @ ''={'' @ template r @ ''}''))))"

definition formatJSX :: "string \<Rightarrow> jsvalue jsobject \<Rightarrow> error + string" where
  "formatJSX name props =
     (case sequence (map formatJSX_entry (filter not_empty_or_undefined (Object_entries props))) of
        Inl e \<Rightarrow> Inl e
      | Inr rs \<Rightarrow>
          let entries = join_lines (filter Boolean_filter rs)
          in Inr (''<'' @ name @ ''\<newline>'' @ entries @ ''\<newline>/>''))"

text \<open>
  \<^verbatim>\<open>generateJSXCode\<close> of the playground is a closure over the component name and
  the state \<^verbatim>\<open>currentProps\<close>, which are parameters here.
\<close>

definition generateJSXCode_entry :: "string \<times> jsvalue \<Rightarrow> error + string option" where
  "generateJSXCode_entry entry =
     (let key = fst entry; value = snd entry in
      if typeof value = ''boolean'' then Inr (if truthy value then Some (''  '' @ key) else None)
      else if typeof value = ''string''
        then Inr (Some (''  '' @ key @ ''='' @ [CHR 0x22] @ the_string value @ [CHR 0x22]))
      else (case JSON_stringify value of
              Inl e \<Rightarrow> Inl e
            | Inr r \<Rightarrow> Inr (Some (''  '' @ key @ ''={'' @ template r @ ''}''))))"

definition generateJSXCode :: "string \<Rightarrow> jsvalue jsobject \<Rightarrow> error + string" where
  "generateJSXCode name currentProps =
     (case sequence (map generateJSXCode_entry
                      (filter not_empty_or_undefined (Object_entries currentProps))) of
        Inl e \<Rightarrow> Inl e
      | Inr rs \<Rightarrow>
          let propsEntries = join_lines (filter Boolean_filter rs)
          in Inr (''<'' @ name @ ''\<newline>'' @ propsEntries @ ''\<newline>/>''))"

section \<open>The combination browser\<close>

text \<open>
  For every visible combination \<^verbatim>\<open>ComponentCombinationBrowser\<close> merges the
  static props with the combination, makes the label of the card from the
  combination, formats the merged props and renders the component with them. The
  record holds what one card receives. An exception of the label or of the
  serializer ends the rendering.

  The template literal of the label converts every candidate value to text. This
  conversion of the language (\<^verbatim>\<open>ToString\<close>) throws a \<^verbatim>\<open>TypeError\<close> on a
  symbol and runs the \<^verbatim>\<open>toString\<close> of an object or function; it is a parameter
  of the model.
\<close>

record card =
  component_props :: "jsvalue jsobject"
  label :: string
  jsxCode :: string

definition combinedProps :: "jsvalue jsobject \<Rightarrow> jsvalue jsobject \<Rightarrow> jsvalue jsobject" where
  \<comment> \<open>\<^verbatim>\<open>{ ...staticProps, ...combo }\<close>\<close>
  "combinedProps staticProps combo = spread (spread [] staticProps) combo"

definition label_entry :: "(jsvalue \<Rightarrow> error + string) \<Rightarrow> string \<times> jsvalue \<Rightarrow> error + string" where
  \<comment> \<open>\<^verbatim>\<open>([k, v]) => `${k}=${v}`\<close>\<close>
  "label_entry ToString entry =
     (case ToString (snd entry) of
        Inl e \<Rightarrow> Inl e
      | Inr text \<Rightarrow> Inr (fst entry @ ''='' @ text))"

definition combination_card ::
  "(jsvalue \<Rightarrow> error + string) \<Rightarrow> string \<Rightarrow> jsvalue jsobject \<Rightarrow> jsvalue jsobject \<Rightarrow> error + card" where
  "combination_card ToString name staticProps combo =
     (let combinedProps = combinedProps staticProps combo in
      case sequence (map (label_entry ToString) (Object_entries combo)) of
        Inl e \<Rightarrow> Inl e
      | Inr texts \<Rightarrow>
          (case formatJSX name combinedProps of
             Inl e \<Rightarrow> Inl e
           | Inr code \<Rightarrow>
               Inr \<lparr>component_props = combinedProps, label = join '' | '' texts,
                    jsxCode = code\<rparr>))"

subsection \<open>The preview pages of the repository\<close>

definition accordion_propOptions :: "jsvalue propOptions" where
  "accordion_propOptions = object_literal
     [(''variant'',
         Some (dense [JString ''default'', JString ''bordered'', JString ''bottom-border''])),
      (''triggerPosition'', Some (dense [JString ''left'', JString ''right''])),
      (''disabled'', Some (dense [JBoolean True, JBoolean False])),
      (''defaultOpen'', Some (dense [JBoolean True, JBoolean False]))]"

definition accordion_staticProps :: "jsvalue jsobject" where
  "accordion_staticProps = object_literal
     [(''title'', JString ''Accordion Title''),
      (''content'', JString ''This is the accordion content.''),
      (''titleIcon'', JObject [(''$$typeof'', JSymbol), (''type'', JFunction), (''key'', JNull),
                               (''props'', JObject [(''className'', JString ''w-4 h-4'')])]),
      (''onOpenChange'', JFunction)]"

text \<open>The initial state of the accordion playground, and one combination of the accordion preview.\<close>

definition accordion_currentProps :: "jsvalue jsobject" where
  "accordion_currentProps = object_literal
     [(''variant'', JString ''default''),
      (''triggerPosition'', JString ''right''),
      (''title'', JString ''Accordion Title''),
      (''content'', JString ''Accordion Content''),
      (''defaultOpen'', JBoolean False),
      (''disabled'', JBoolean False),
      (''itemValue'', JString ''item-1'')]"

definition accordion_combo :: "jsvalue jsobject" where
  "accordion_combo =
     [(''variant'', JString ''default''), (''triggerPosition'', JString ''left''),
      (''disabled'', JBoolean True), (''defaultOpen'', JBoolean False)]"

text \<open>An option mapping whose second declaration is named by an array index.\<close>

definition reordered_propOptions :: "jsvalue propOptions" where
  "reordered_propOptions = object_literal
     [(''b'', Some (dense [JString ''x'', JString ''y''])),
      (''1'', Some (dense [JString ''p'', JString ''q'']))]"

text \<open>
  An option mapping whose first candidate array is sparse:
  \<^verbatim>\<open>{ a: ["x", , "z"], b: ["p"] }\<close>.
\<close>

definition sparse_propOptions :: "jsvalue propOptions" where
  "sparse_propOptions = object_literal
     [(''a'', Some [Some (JString ''x''), None, Some (JString ''z'')]),
      (''b'', Some (dense [JString ''p'']))]"

section \<open>Reference definitions\<close>

subsection \<open>The Cartesian product in lexicographic order\<close>

fun present :: "'v jsarray \<Rightarrow> 'v list" where
  \<comment> \<open>The elements of an array, without its holes.\<close>
  "present [] = []"
| "present (None # xs) = present xs"
| "present (Some x # xs) = x # present xs"

fun cartesian_product :: "'v propOptions \<Rightarrow> 'v jsobject list" where
  "cartesian_product [] = [ [] ]"
| "cartesian_product (p # rest) =
     concat (map (\<lambda>v. map (\<lambda>c. (fst p, v) # c) (cartesian_product rest))
                 (present (nullish_list (Some (snd p)))))"

text \<open>
  The order of a sequence of combinations is read off the positions of the chosen
  candidates: \<open>positions\<close> replaces every candidate by its position (its index) in
  its array, a hole staying a hole, and \<open>pick\<close> puts the candidates back.
\<close>

definition element_at :: "'v jsarray \<Rightarrow> nat \<Rightarrow> 'v option" where
  "element_at vs i = (if i < length vs then vs ! i else None)"

definition positions :: "'v propOptions \<Rightarrow> nat propOptions" where
  "positions options =
     map (\<lambda>p. (fst p, map_option (\<lambda>vs. map (\<lambda>i. map_option (\<lambda>v. i) (vs ! i)) [0..<length vs])
                                    (snd p))) options"

definition pick :: "'v propOptions \<Rightarrow> nat jsobject \<Rightarrow> 'v jsobject" where
  "pick options c =
     concat (map (\<lambda>q. case element_at (nullish_list (get_prop options (fst q))) (snd q) of
                         None \<Rightarrow> []
                       | Some v \<Rightarrow> [(fst q, v)]) c)"

fun lex_less :: "nat option list \<Rightarrow> nat option list \<Rightarrow> bool" where
  "lex_less (Some i # is) (Some j # js) = (i < j \<or> (i = j \<and> lex_less is js))"
| "lex_less _ _ = False"

definition position_vector :: "string list \<Rightarrow> nat jsobject \<Rightarrow> nat option list" where
  "position_vector ks c = map (get_prop c) ks"

definition lexicographic_by :: "string list \<Rightarrow> nat jsobject list \<Rightarrow> bool" where
  \<comment> \<open>The sequence ascends strictly in the lexicographic order of the position
      vectors, the property listed first in \<open>ks\<close> being the most significant.\<close>
  "lexicographic_by ks r =
     sorted_wrt (\<lambda>a b. lex_less (position_vector ks a) (position_vector ks b)) r"

subsection \<open>The rendering of attributes\<close>

definition is_kept :: "jsvalue \<Rightarrow> bool" where
  "is_kept v = (v \<noteq> JString [] \<and> v \<noteq> JUndefined \<and> v \<noteq> JBoolean False)"

definition is_react_element :: "jsvalue \<Rightarrow> bool" where
  "is_react_element v = (typeof v = ''object'' \<and> truthy (optional_member v ''$$typeof''))"

fun attribute_text :: "string \<Rightarrow> jsvalue \<Rightarrow> error + string" where
  "attribute_text key (JBoolean True) = Inr (''  '' @ key)"
| "attribute_text key (JString s) = Inr (''  '' @ key @ ''='' @ [CHR 0x22] @ s @ [CHR 0x22])"
| "attribute_text key v =
     (case JSON_stringify v of
        Inl e \<Rightarrow> Inl e
      | Inr r \<Rightarrow> Inr (''  '' @ key @ ''={'' @ template r @ ''}''))"

definition attribute_text_or_placeholder :: "string \<Rightarrow> jsvalue \<Rightarrow> error + string" where
  "attribute_text_or_placeholder key v =
     (if is_react_element v then Inr (''  '' @ key @ ''={<ReactElement />}'')
      else attribute_text key v)"

definition tag :: "string \<Rightarrow> string list \<Rightarrow> string" where
  "tag name attrs = ''<'' @ name @ ''\<newline>'' @ join ''\<newline>'' attrs @ ''\<newline>/>''"

definition serialize ::
  "(string \<Rightarrow> jsvalue \<Rightarrow> error + string) \<Rightarrow> string \<Rightarrow> jsvalue jsobject \<Rightarrow> error + string" where
  "serialize render name props =
     (case sequence (map (\<lambda>p. render (fst p) (snd p)) (filter (\<lambda>p. is_kept (snd p)) props)) of
        Inl e \<Rightarrow> Inl e
      | Inr attrs \<Rightarrow> Inr (tag name attrs))"

subsection \<open>The values on which \<^verbatim>\<open>JSON.stringify\<close> throws\<close>

fun contains_bigint :: "jsvalue \<Rightarrow> bool" where
  "contains_bigint (JBigInt i) = True"
| "contains_bigint (JArray xs) = list_ex contains_bigint xs"
| "contains_bigint (JObject ps) = list_ex (\<lambda>p. contains_bigint (snd p)) ps"
| "contains_bigint _ = False"

fun is_cyclic :: "jsvalue \<Rightarrow> bool" where
  "is_cyclic JCircular = True"
| "is_cyclic (JArray xs) = list_ex is_cyclic xs"
| "is_cyclic (JObject ps) = list_ex (\<lambda>p. is_cyclic (snd p)) ps"
| "is_cyclic _ = False"

subsection \<open>The lines of a text\<close>

fun split_lines :: "string \<Rightarrow> string list" where
  \<comment> \<open>\<^verbatim>\<open>text.split("\n")\<close>\<close>
  "split_lines [] = [ [] ]"
| "split_lines (c # cs) =
     (if c = CHR ''\<newline>'' then [] # split_lines cs
      else (case split_lines cs of [] \<Rightarrow> [ [c] ] | l # ls \<Rightarrow> (c # l) # ls))"

definition one_line :: "string \<Rightarrow> bool" where
  "one_line text = (CHR ''\<newline>'' \<notin> set text)"

section \<open>Properties of the enumerator\<close>

lemma insert_prop_last:
  "\<forall>p \<in> set obj. \<not> comes_before k (fst p) \<Longrightarrow> insert_prop k v obj = obj @ [(k, v)]"
  by (induction obj) auto

lemma define_prop_new_last:
  assumes "k \<notin> set (map fst obj)" and "\<forall>p \<in> set obj. \<not> comes_before k (fst p)"
  shows "define_prop obj k v = obj @ [(k, v)]"
  using assms by (simp add: define_prop_def insert_prop_last)

lemma flatMap_Some:
  "(\<And>x. f x = Some (g x)) \<Longrightarrow> flatMap f xs = Some (concat (map g (present xs)))"
  by (induction f xs rule: flatMap.induct) auto

lemma wf_object_get_prop:
  assumes "wf_object obj" and "i < length obj"
  shows "get_prop obj (fst (obj ! i)) = Some (snd (obj ! i))"
  using assms by (simp add: wf_object_def get_prop_def)

lemma foldl_define_prop_wf:
  "wf_object (pre @ src) \<Longrightarrow>
   foldl (\<lambda>obj p. define_prop obj (fst p) (snd p)) pre src = pre @ src"
proof (induction src arbitrary: pre)
  case Nil
  show ?case by simp
next
  case (Cons p ps)
  have "define_prop pre (fst p) (snd p) = pre @ [(fst p, snd p)]"
    using Cons.prems
    by (intro define_prop_new_last) (auto simp: wf_object_def sorted_wrt_append)
  moreover have "foldl (\<lambda>obj p. define_prop obj (fst p) (snd p)) (pre @ [p]) ps = (pre @ [p]) @ ps"
    using Cons.prems by (intro Cons.IH) simp
  ultimately show ?case by simp
qed

lemma spread_copy: "wf_object obj \<Longrightarrow> spread [] obj = obj"
  using foldl_define_prop_wf [of "[]" obj] by (simp add: spread_def Object_entries_def)

lemma wf_object_next_key:
  assumes wf: "wf_object obj" and i: "i < length obj" and cur: "map fst current = take i (map fst obj)"
  shows "define_prop (spread [] current) (fst (obj ! i)) v = current @ [(fst (obj ! i), v)]"
proof -
  have d: "distinct (map fst obj)" and s: "sorted_wrt (\<lambda>k k'. \<not> comes_before k' k) (map fst obj)"
    using wf by (simp_all add: wf_object_def)
  have "wf_object current"
    using d s by (simp add: wf_object_def cur sorted_wrt_take)
  then have copy: "spread [] current = current" by (rule spread_copy)
  show ?thesis unfolding copy
  proof (rule define_prop_new_last)
  show "fst (obj ! i) \<notin> set (map fst current)"
  proof
    assume "fst (obj ! i) \<in> set (map fst current)"
    then have "map fst obj ! i \<in> set (take i (map fst obj))" using cur i by simp
    then obtain j where "j < i" "map fst obj ! j = map fst obj ! i"
      using i by (auto simp: in_set_conv_nth)
    with d i show False by (auto simp: distinct_conv_nth)
  qed
  show "\<forall>p \<in> set current. \<not> comes_before (fst (obj ! i)) (fst p)"
  proof
    fix p assume "p \<in> set current"
    then have "fst p \<in> set (take i (map fst obj))" using cur by (metis image_eqI set_map)
    then obtain j where j: "j < i" "map fst obj ! j = fst p"
      using i by (auto simp: in_set_conv_nth)
    have "j < i" "i < length (map fst obj)" using j i by simp_all
    with s have "\<not> comes_before (map fst obj ! i) (map fst obj ! j)"
      by (rule sorted_wrt_nth_less)
    with j i show "\<not> comes_before (fst (obj ! i)) (fst p)" by simp
  qed
  qed
qed

lemma combine_cartesian_product:
  assumes wf: "wf_object options"
  shows "index \<le> length options \<Longrightarrow> map fst current = take index (map fst options) \<Longrightarrow>
         combine options (map fst options) index current =
           Some (map (\<lambda>c. current @ c) (cartesian_product (drop index options)))"
proof (induction "length options - index" arbitrary: index current)
  case 0
  then have "index = length options" by simp
  then show ?case by (subst combine.simps) simp
next
  case (Suc n)
  then have lt: "index < length options" by simp
  let ?p = "options ! index"
  have key: "key_at (map fst options) index = fst ?p" using lt by (simp add: key_at_def)
  have vals: "nullish_list (get_prop options (fst ?p)) = nullish_list (Some (snd ?p))"
    using wf lt by (simp add: wf_object_get_prop)
  have step: "combine options (map fst options) (index + 1) (define_prop (spread [] current) (fst ?p) v) =
              Some (map (\<lambda>c. current @ (fst ?p, v) # c) (cartesian_product (drop (Suc index) options)))" for v
  proof -
    have d: "define_prop (spread [] current) (fst ?p) v = current @ [(fst ?p, v)]"
      using wf lt Suc.prems(2) by (rule wf_object_next_key)
    have "map fst (current @ [(fst ?p, v)]) = take (index + 1) (map fst options)"
      using Suc.prems(2) lt by (simp add: take_Suc_conv_app_nth)
    moreover have "n = length options - (index + 1)" using Suc.hyps(2) by simp
    moreover have "index + 1 \<le> length options" using lt by simp
    ultimately have "combine options (map fst options) (index + 1) (current @ [(fst ?p, v)]) =
       Some (map (\<lambda>c. (current @ [(fst ?p, v)]) @ c) (cartesian_product (drop (index + 1) options)))"
      using Suc.hyps(1) by blast
    then show ?thesis using d by simp
  qed
  have dr: "drop index options = ?p # drop (Suc index) options"
    using lt by (simp add: Cons_nth_drop_Suc)
  have "combine options (map fst options) index current =
        flatMap (\<lambda>value. combine options (map fst options) (index + 1)
                            (define_prop (spread [] current) (fst ?p) value))
                (nullish_list (Some (snd ?p)))"
    using lt key vals by (subst combine.simps) (simp add: Let_def)
  also have "\<dots> = Some (concat (map (\<lambda>v. map (\<lambda>c. current @ (fst ?p, v) # c) (cartesian_product (drop (Suc index) options)))
                 (present (nullish_list (Some (snd ?p))))))"
    by (rule flatMap_Some) (rule step)
  also have "\<dots> = Some (map (\<lambda>c. current @ c) (cartesian_product (drop index options)))"
    by (simp add: dr map_concat comp_def)
  finally show ?case .
qed

lemma getAllCombinations_cartesian_product:
  assumes "wf_object options"
  shows "getAllCombinations options = Some (if options = [] then [] else cartesian_product options)"
  using combine_cartesian_product [OF assms, of 0 "[]"]
  by (simp add: getAllCombinations_def Object_keys_def)

lemma combine_returns:
  "index \<le> length keys \<Longrightarrow> \<exists>r. combine options keys index current = Some r"
proof (induction "length keys - index" arbitrary: index current)
  case 0
  then show ?case by (subst combine.simps) simp
next
  case (Suc n)
  then have lt: "index < length keys" by simp
  have "\<exists>r. combine options keys (index + 1) c = Some r" for c
    using Suc.hyps(1) [of "index + 1" c] Suc.hyps(2) lt by simp
  then obtain g where g: "\<And>c. combine options keys (index + 1) c = Some (g c)" by metis
  have "flatMap (\<lambda>value. combine options keys (index + 1)
                           (define_prop (spread [] current) (key_at keys index) value)) vs
      = Some (concat (map (\<lambda>value. g (define_prop (spread [] current) (key_at keys index) value))
                          (present vs)))" for vs
    by (rule flatMap_Some) (rule g)
  then show ?case using lt by (subst combine.simps) (simp add: Let_def)
qed

subsection \<open>The option mapping of the accordion preview\<close>

lemmas object_eval = object_literal_def define_prop_def comes_before_def array_index_def digit_value_def

lemma accordion_propOptions_eq:
  "accordion_propOptions =
     [(''variant'',
         Some (dense [JString ''default'', JString ''bordered'', JString ''bottom-border''])),
      (''triggerPosition'', Some (dense [JString ''left'', JString ''right''])),
      (''disabled'', Some (dense [JBoolean True, JBoolean False])),
      (''defaultOpen'', Some (dense [JBoolean True, JBoolean False]))]"
  by (simp add: accordion_propOptions_def object_eval)

lemma wf_accordion_propOptions: "wf_object accordion_propOptions"
  by (simp add: accordion_propOptions_eq wf_object_def comes_before_def array_index_def digit_value_def)

subsection \<open>Counting and membership\<close>

lemma length_cartesian_product:
  "length (cartesian_product opts) =
   prod_list (map (\<lambda>p. length (present (nullish_list (Some (snd p))))) opts)"
proof (induction opts)
  case Nil
  show ?case by simp
next
  case (Cons p rest)
  have "length (cartesian_product (p # rest)) =
        sum_list (map (\<lambda>v. length (cartesian_product rest)) (present (nullish_list (Some (snd p)))))"
    by (simp add: length_concat comp_def)
  also have "\<dots> = length (present (nullish_list (Some (snd p)))) * length (cartesian_product rest)"
    by (simp add: sum_list_triv)
  finally show ?case using Cons.IH by simp
qed

lemma wf_object_candidates:
  assumes "wf_object options" and "p \<in> set options"
  shows "nullish_list (get_prop options (fst p)) = nullish_list (Some (snd p))"
proof -
  from assms(2) obtain i where "i < length options" "options ! i = p"
    by (auto simp: in_set_conv_nth)
  with assms(1) show ?thesis using wf_object_get_prop by fastforce
qed

lemma wf_object_lengths:
  assumes "wf_object options"
  shows "map (\<lambda>k. length (present (nullish_list (get_prop options k)))) (Object_keys options) =
         map (\<lambda>p. length (present (nullish_list (Some (snd p))))) options"
  using wf_object_candidates [OF assms] by (simp add: Object_keys_def)

lemma present_dense: "None \<notin> set vs \<Longrightarrow> length (present vs) = length vs"
  by (induction vs rule: present.induct) auto

lemma present_set: "set (present vs) = {v. Some v \<in> set vs}"
  by (induction vs rule: present.induct) auto

text \<open>
  C1, as amended. For every option mapping the enumerator returns; the number of
  combinations is the product, over the properties, of the numbers of candidates
  that are present in the candidate arrays. It is the product of the lengths of the
  candidate arrays when no array has a hole, and it is zero (the result is the
  empty sequence) when the mapping has no property or when some candidate array is
  empty or has no element. The hypothesis is the invariant of the representation,
  which every object has (\<open>wf_object_literal\<close> below).
\<close>

theorem getAllCombinations_count:
  assumes "wf_object options"
  shows "\<exists>r. getAllCombinations options = Some r \<and>
           length r = (if Object_keys options = [] then 0
                       else prod_list (map (\<lambda>k. length (present (nullish_list (get_prop options k))))
                                           (Object_keys options))) \<and>
           ((\<forall>k \<in> set (Object_keys options). None \<notin> set (nullish_list (get_prop options k))) \<longrightarrow>
              length r = (if Object_keys options = [] then 0
                          else prod_list (map (\<lambda>k. length (nullish_list (get_prop options k)))
                                              (Object_keys options)))) \<and>
           ((Object_keys options = [] \<or>
              (\<exists>k \<in> set (Object_keys options). present (nullish_list (get_prop options k)) = [])) \<longrightarrow>
              r = [])"
proof -
  let ?r = "if options = [] then [] else cartesian_product options"
  let ?ms = "map (\<lambda>k. length (present (nullish_list (get_prop options k)))) (Object_keys options)"
  let ?ns = "map (\<lambda>k. length (nullish_list (get_prop options k))) (Object_keys options)"
  have r: "getAllCombinations options = Some ?r"
    using assms by (rule getAllCombinations_cartesian_product)
  have "length (cartesian_product options) = prod_list ?ms"
    by (simp only: length_cartesian_product wf_object_lengths [OF assms])
  then have len: "length ?r = (if Object_keys options = [] then 0 else prod_list ?ms)"
    by (simp add: Object_keys_def)
  have dense: "length ?r = (if Object_keys options = [] then 0 else prod_list ?ns)"
    if "\<forall>k \<in> set (Object_keys options). None \<notin> set (nullish_list (get_prop options k))"
  proof -
    from that have "?ms = ?ns" by (intro map_cong refl) (simp add: present_dense)
    then show ?thesis using len by (simp only:)
  qed
  have "?r = []" if "Object_keys options = [] \<or>
      (\<exists>k \<in> set (Object_keys options). present (nullish_list (get_prop options k)) = [])"
  proof (cases "Object_keys options = []")
    case True
    then show ?thesis by (simp add: Object_keys_def)
  next
    case False
    with that obtain k where "k \<in> set (Object_keys options)"
      "present (nullish_list (get_prop options k)) = []" by blast
    then have "0 \<in> set ?ms" by force
    then have "prod_list ?ms = 0" by (simp only: prod_list_zero_iff)
    with len False have "length ?r = 0" by simp
    then show ?thesis by (simp only: length_0_conv)
  qed
  with r len dense show ?thesis by blast
qed

theorem getAllCombinations_count_witness:
  "wf_object accordion_propOptions \<and>
   (\<exists>r. getAllCombinations accordion_propOptions = Some r \<and> length r = 24)"
proof -
  from getAllCombinations_count [OF wf_accordion_propOptions]
  obtain r where r: "getAllCombinations accordion_propOptions = Some r"
    and len: "length r = (if Object_keys accordion_propOptions = [] then 0
                else prod_list (map (\<lambda>k. length (present (nullish_list (get_prop accordion_propOptions k))))
                                    (Object_keys accordion_propOptions)))"
    by blast
  have "length r = 24"
    unfolding len
    by (simp add: accordion_propOptions_eq Object_keys_def get_prop_def nullish_list_def dense_def)
  with r wf_accordion_propOptions show ?thesis by blast
qed

lemma sparse_propOptions_eq:
  "sparse_propOptions =
     [(''a'', Some [Some (JString ''x''), None, Some (JString ''z'')]),
      (''b'', Some [Some (JString ''p'')])]"
  by (simp add: sparse_propOptions_def object_eval dense_def)

lemmas combine_eval = getAllCombinations_def Object_keys_def combine.simps key_at_def Let_def
  spread_def Object_entries_def
  nullish_list_def get_prop_def define_prop_def comes_before_def array_index_def digit_value_def

text \<open>
  C1 as stated fails: the candidate arrays of \<^verbatim>\<open>{ a: ["x", , "z"], b: ["p"] }\<close>
  have the lengths 3 and 1, and the enumerator returns two combinations, since
  \<^verbatim>\<open>flatMap\<close> skips the hole.
\<close>

theorem getAllCombinations_sparse_counterexample:
  "map (\<lambda>k. length (nullish_list (get_prop sparse_propOptions k))) (Object_keys sparse_propOptions) =
     [3, 1] \<and>
   getAllCombinations sparse_propOptions =
     Some [ [(''a'', JString ''x''), (''b'', JString ''p'')],
            [(''a'', JString ''z''), (''b'', JString ''p'')] ]"
  by (simp add: sparse_propOptions_eq combine_eval)

lemma cartesian_product_entries:
  "c \<in> set (cartesian_product opts) \<Longrightarrow>
   list_all2 (\<lambda>p q. fst q = fst p \<and> Some (snd q) \<in> set (nullish_list (Some (snd p)))) opts c"
  by (induction opts arbitrary: c) (auto simp: present_set)

text \<open>
  C3. Every combination the enumerator emits is a full assignment: it has exactly the
  property names of the option mapping, and the value of each property is an element
  of the candidate array of that property.
\<close>

theorem getAllCombinations_full_assignment:
  assumes wf: "wf_object options"
  shows "\<exists>r. getAllCombinations options = Some r \<and>
           (\<forall>c \<in> set r. Object_keys c = Object_keys options \<and>
              (\<forall>k \<in> set (Object_keys options).
                 \<exists>v. get_prop c k = Some v \<and> Some v \<in> set (nullish_list (get_prop options k))))"
proof -
  let ?r = "if options = [] then [] else cartesian_product options"
  have r: "getAllCombinations options = Some ?r"
    using wf by (rule getAllCombinations_cartesian_product)
  have "Object_keys c = Object_keys options \<and>
        (\<forall>k \<in> set (Object_keys options).
           \<exists>v. get_prop c k = Some v \<and> Some v \<in> set (nullish_list (get_prop options k)))"
    if "c \<in> set ?r" for c
  proof -
    from that have "c \<in> set (cartesian_product options)" by (cases "options = []") simp_all
    then have all2: "list_all2 (\<lambda>p q. fst q = fst p \<and> Some (snd q) \<in> set (nullish_list (Some (snd p)))) options c"
      by (rule cartesian_product_entries)
    then have len: "length c = length options" by (simp add: list_all2_lengthD)
    have nth: "fst (c ! i) = fst (options ! i) \<and>
               Some (snd (c ! i)) \<in> set (nullish_list (Some (snd (options ! i))))"
      if "i < length options" for i
      using all2 that by (simp add: list_all2_conv_all_nth)
    have keys: "map fst c = map fst options"
      using len nth by (simp add: list_eq_iff_nth_eq)
    have "\<exists>v. get_prop c k = Some v \<and> Some v \<in> set (nullish_list (get_prop options k))"
      if "k \<in> set (map fst options)" for k
    proof -
      from that obtain i where i: "i < length options" "fst (options ! i) = k"
        by (auto simp: in_set_conv_nth)
      have "wf_object c" using wf keys by (simp add: wf_object_def)
      moreover have "i < length c" using i len by simp
      ultimately have "get_prop c (fst (c ! i)) = Some (snd (c ! i))" by (rule wf_object_get_prop)
      moreover have "fst (c ! i) = k" using nth i by simp
      moreover have "nullish_list (get_prop options k) = nullish_list (Some (snd (options ! i)))"
        using wf_object_candidates [OF wf, of "options ! i"] i by simp
      ultimately show ?thesis using nth i by auto
    qed
    with keys show ?thesis by (simp add: Object_keys_def)
  qed
  with r show ?thesis by blast
qed

theorem getAllCombinations_full_assignment_witness:
  "wf_object accordion_propOptions \<and>
   (\<exists>r. getAllCombinations accordion_propOptions = Some r \<and>
        list_all (\<lambda>c. Object_keys c = [''variant'', ''triggerPosition'', ''disabled'', ''defaultOpen'']) r)"
  using getAllCombinations_full_assignment [OF wf_accordion_propOptions] wf_accordion_propOptions
  by (auto simp add: accordion_propOptions_eq Object_keys_def list_all_iff)

text \<open>
  C7. The enumerator is total and deterministic: for every option mapping the run
  returns a value; \<^verbatim>\<open>combine\<close> returns from every index up to the number of
  keys, which is shown by induction on the distance between the two (lemma
  \<open>combine_returns\<close>); and equal option mappings give equal results, the model
  being a function of the option mapping alone.
\<close>

theorem getAllCombinations_total:
  "(\<exists>r. getAllCombinations options = Some r) \<and>
   (\<forall>keys index current. index \<le> length keys \<longrightarrow>
      (\<exists>r. combine options keys index current = Some r)) \<and>
   (\<forall>options'. options' = options \<longrightarrow> getAllCombinations options' = getAllCombinations options)"
  using combine_returns [of _ _ options]
  by (simp add: getAllCombinations_def Let_def)

theorem getAllCombinations_total_witness:
  "\<exists>r. getAllCombinations accordion_propOptions = Some r"
  using getAllCombinations_total [of accordion_propOptions] by simp

section \<open>The order of the combinations\<close>

subsection \<open>Objects built by definitions are well formed\<close>

lemma keys_insert_prop: "set (map fst (insert_prop k v obj)) = insert k (set (map fst obj))"
  by (induction obj) auto

lemma comes_before_asym: "comes_before k k' \<Longrightarrow> \<not> comes_before k' k"
  by (auto simp: comes_before_def split: option.splits)

lemma comes_before_trans_neg:
  "comes_before k p \<Longrightarrow> \<not> comes_before m p \<Longrightarrow> \<not> comes_before m k"
  by (auto simp: comes_before_def split: option.splits)

lemma sorted_insert_prop:
  assumes "sorted_wrt (\<lambda>k k'. \<not> comes_before k' k) (map fst obj)"
  shows "sorted_wrt (\<lambda>k k'. \<not> comes_before k' k) (map fst (insert_prop k v obj))"
  using assms
proof (induction obj)
  case Nil
  show ?case by simp
next
  case (Cons p ps)
  show ?case
  proof (cases "comes_before k (fst p)")
    case True
    have "\<not> comes_before (fst q) k" if "q \<in> set ps" for q
    proof -
      have "\<not> comes_before (fst q) (fst p)" using Cons.prems that by auto
      with True show ?thesis by (rule comes_before_trans_neg)
    qed
    with True Cons.prems show ?thesis by (auto dest: comes_before_asym)
  next
    case False
    have "sorted_wrt (\<lambda>k k'. \<not> comes_before k' k) (map fst (insert_prop k v ps))"
      using Cons by simp
    moreover have "\<forall>k' \<in> set (map fst (insert_prop k v ps)). \<not> comes_before k' (fst p)"
      using Cons.prems False by (auto simp: keys_insert_prop simp del: set_map)
    ultimately show ?thesis using False by simp
  qed
qed

lemma distinct_insert_prop:
  "k \<notin> set (map fst obj) \<Longrightarrow> distinct (map fst obj) \<Longrightarrow> distinct (map fst (insert_prop k v obj))"
proof (induction obj)
  case Nil
  show ?case by simp
next
  case (Cons p ps)
  then have "fst p \<notin> set (map fst (insert_prop k v ps))"
    by (auto simp: keys_insert_prop simp del: set_map)
  with Cons show ?case by auto
qed

lemma keys_update_prop: "map fst (map (\<lambda>p. if fst p = k then (k, v) else p) obj) = map fst obj"
  by (induction obj) auto

lemma wf_define_prop:
  assumes "wf_object obj"
  shows "wf_object (define_prop obj k v)"
proof (cases "k \<in> set (map fst obj)")
  case True
  then have "define_prop obj k v = map (\<lambda>p. if fst p = k then (k, v) else p) obj"
    by (simp add: define_prop_def)
  then have "map fst (define_prop obj k v) = map fst obj"
    by (simp only: keys_update_prop)
  with assms show ?thesis by (simp only: wf_object_def)
next
  case False
  then have "define_prop obj k v = insert_prop k v obj"
    by (simp add: define_prop_def)
  with assms False show ?thesis
    by (simp only: wf_object_def sorted_insert_prop distinct_insert_prop simp_thms)
qed

lemma wf_foldl_define_prop:
  "wf_object obj \<Longrightarrow> wf_object (foldl (\<lambda>obj p. define_prop obj (fst p) (snd p)) obj decls)"
  by (induction decls arbitrary: obj) (simp_all add: wf_define_prop)

lemma wf_object_literal: "wf_object (object_literal decls)"
  unfolding object_literal_def by (rule wf_foldl_define_prop) (simp add: wf_object_def)

lemma insert_prop_plain_name: "array_index k = None \<Longrightarrow> insert_prop k v obj = obj @ [(k, v)]"
  by (rule insert_prop_last) (simp add: comes_before_def)

lemma foldl_define_prop_plain_names:
  assumes "distinct (map fst (obj @ decls))" and "\<forall>k \<in> set (map fst decls). array_index k = None"
  shows "foldl (\<lambda>obj p. define_prop obj (fst p) (snd p)) obj decls = obj @ decls"
  using assms
proof (induction decls arbitrary: obj)
  case Nil
  show ?case by simp
next
  case (Cons d ds)
  have "define_prop obj (fst d) (snd d) = obj @ [d]"
    using Cons.prems by (simp add: define_prop_def insert_prop_plain_name)
  moreover have "foldl (\<lambda>obj p. define_prop obj (fst p) (snd p)) (obj @ [d]) ds = (obj @ [d]) @ ds"
    using Cons.prems by (intro Cons.IH) auto
  ultimately show ?case by simp
qed

lemma object_literal_plain_names:
  assumes "distinct (map fst decls)" and "\<forall>k \<in> set (map fst decls). array_index k = None"
  shows "object_literal decls = decls"
  using foldl_define_prop_plain_names [of "[]" decls] assms by (simp add: object_literal_def)

subsection \<open>Lexicographic order\<close>

lemma sorted_wrt_concat_map:
  assumes "\<And>x. x \<in> set xs \<Longrightarrow> sorted_wrt R (f x)"
    and "sorted_wrt (\<lambda>x y. \<forall>a \<in> set (f x). \<forall>b \<in> set (f y). R a b) xs"
  shows "sorted_wrt R (concat (map f xs))"
  using assms by (induction xs) (auto simp: sorted_wrt_append)

lemma positions_keys: "map fst (positions options) = map fst options"
  by (simp add: positions_def comp_def)

lemma wf_positions: "wf_object options \<Longrightarrow> wf_object (positions options)"
  by (simp add: wf_object_def positions_keys)

lemma present_positions:
  "present (map (\<lambda>i. map_option (\<lambda>v. i) (f i)) js) = filter (\<lambda>i. f i \<noteq> None) js"
  by (induction js) auto

lemma candidate_positions:
  "present (nullish_list (Some (map_option (\<lambda>vs. map (\<lambda>i. map_option (\<lambda>v. i) (vs ! i)) [0..<length vs]) a))) =
   filter (\<lambda>i. nullish_list (Some a) ! i \<noteq> None) [0..<length (nullish_list (Some a))]"
  by (cases a) (simp_all add: nullish_list_def present_positions)

lemma cartesian_product_positions_sorted:
  "sorted_wrt (\<lambda>a b. lex_less (map (\<lambda>q. Some (snd q)) a) (map (\<lambda>q. Some (snd q)) b))
     (cartesian_product (positions options))"
proof (induction options)
  case Nil
  show ?case by (simp add: positions_def)
next
  case (Cons p rest)
  let ?R = "\<lambda>a b. lex_less (map (\<lambda>q. Some (snd q)) a) (map (\<lambda>q. Some (snd q)) b)"
  let ?CP = "cartesian_product (positions rest)"
  let ?vs = "nullish_list (Some (snd p))"
  let ?js = "filter (\<lambda>i. ?vs ! i \<noteq> None) [0..<length ?vs]"
  have cp: "cartesian_product (positions (p # rest)) =
            concat (map (\<lambda>i. map (\<lambda>c. (fst p, i) # c) ?CP) ?js)"
    using candidate_positions [of "snd p"] by (simp add: positions_def)
  have "sorted_wrt (<) ?js"
    by (rule sorted_wrt_filter) simp
  then have outer: "sorted_wrt (\<lambda>i j. \<forall>a \<in> set (map (\<lambda>c. (fst p, i) # c) ?CP).
                       \<forall>b \<in> set (map (\<lambda>c. (fst p, j) # c) ?CP). ?R a b) ?js"
    by (rule sorted_wrt_mono_rel [rotated]) auto
  have inner: "sorted_wrt ?R (map (\<lambda>c. (fst p, i) # c) ?CP)" for i
    using Cons.IH by (simp add: sorted_wrt_map)
  show ?case unfolding cp by (rule sorted_wrt_concat_map) (use inner outer in auto)
qed

lemma position_vector_positional:
  assumes "distinct (map fst c)"
  shows "position_vector (map fst c) c = map (\<lambda>q. Some (snd q)) c"
  using assms by (auto simp: position_vector_def get_prop_def)

lemma cartesian_product_keys:
  "c \<in> set (cartesian_product opts) \<Longrightarrow> map fst c = map fst opts"
  by (induction opts arbitrary: c) auto

lemma cartesian_product_positions_lexicographic:
  assumes "distinct (map fst options)"
  shows "lexicographic_by (map fst options) (cartesian_product (positions options))"
proof -
  have "position_vector (map fst options) c = map (\<lambda>q. Some (snd q)) c"
    if "c \<in> set (cartesian_product (positions options))" for c
  proof -
    have "map fst c = map fst options"
      using cartesian_product_keys [OF that] by (simp add: positions_keys)
    with assms position_vector_positional [of c] show ?thesis by simp
  qed
  then show ?thesis
    unfolding lexicographic_by_def
    using cartesian_product_positions_sorted [of options]
    by (auto elim!: sorted_wrt_mono_rel [rotated])
qed

lemma concat_present:
  "concat (map (\<lambda>x. case x of None \<Rightarrow> [] | Some v \<Rightarrow> G v) vs) = concat (map G (present vs))"
  by (induction vs rule: present.induct) auto

lemma concat_filter_present:
  "concat (map H (filter (\<lambda>i. f i \<noteq> None) js)) =
   concat (map (\<lambda>i. case f i of None \<Rightarrow> [] | Some v \<Rightarrow> H i) js)"
  by (induction js) auto

lemma cartesian_product_pick:
  assumes "\<And>p. p \<in> set opts \<Longrightarrow> cand (fst p) = nullish_list (Some (snd p))"
  shows "cartesian_product opts =
         map (\<lambda>c. concat (map (\<lambda>q. case element_at (cand (fst q)) (snd q) of
                                        None \<Rightarrow> []
                                      | Some v \<Rightarrow> [(fst q, v)]) c))
             (cartesian_product (positions opts))"
  using assms
proof (induction opts)
  case Nil
  show ?case by (simp add: positions_def)
next
  case (Cons p rest)
  let ?F = "\<lambda>c. concat (map (\<lambda>q. case element_at (cand (fst q)) (snd q) of
                                     None \<Rightarrow> []
                                   | Some v \<Rightarrow> [(fst q, v)]) c)"
  let ?vs = "nullish_list (Some (snd p))"
  let ?CP = "cartesian_product (positions rest)"
  let ?G = "\<lambda>v. map (\<lambda>c. (fst p, v) # c) (cartesian_product rest)"
  have IH: "cartesian_product rest = map ?F ?CP"
    using Cons by simp
  have cand: "cand (fst p) = ?vs" using Cons.prems by simp
  have cp: "cartesian_product (positions (p # rest)) =
            concat (map (\<lambda>i. map (\<lambda>c. (fst p, i) # c) ?CP)
                        (filter (\<lambda>i. ?vs ! i \<noteq> None) [0..<length ?vs]))"
    using candidate_positions [of "snd p"] by (simp add: positions_def)
  have "map ?F (cartesian_product (positions (p # rest))) =
        concat (map (\<lambda>i. map (\<lambda>c. ?F ((fst p, i) # c)) ?CP)
                    (filter (\<lambda>i. ?vs ! i \<noteq> None) [0..<length ?vs]))"
    unfolding cp by (simp add: map_concat comp_def)
  also have "\<dots> = concat (map (\<lambda>i. case ?vs ! i of
                                        None \<Rightarrow> []
                                      | Some v \<Rightarrow> map (\<lambda>c. ?F ((fst p, i) # c)) ?CP)
                              [0..<length ?vs])"
    by (rule concat_filter_present)
  also have "\<dots> = concat (map (\<lambda>i. case ?vs ! i of None \<Rightarrow> [] | Some v \<Rightarrow> ?G v) [0..<length ?vs])"
  proof -
    have "(case ?vs ! i of None \<Rightarrow> [] | Some v \<Rightarrow> map (\<lambda>c. ?F ((fst p, i) # c)) ?CP) =
          (case ?vs ! i of None \<Rightarrow> [] | Some v \<Rightarrow> ?G v)" if "i < length ?vs" for i
    proof (cases "?vs ! i")
      case None
      then show ?thesis by simp
    next
      case (Some v)
      with that have "element_at (cand (fst p)) i = Some v" by (simp add: element_at_def cand)
      then have "map (\<lambda>c. ?F ((fst p, i) # c)) ?CP = map (\<lambda>c. (fst p, v) # ?F c) ?CP" by simp
      also have "\<dots> = ?G v" by (simp add: IH comp_def)
      finally show ?thesis using Some by simp
    qed
    then show ?thesis by (intro arg_cong [where f = concat] map_cong refl) simp
  qed
  also have "\<dots> = concat (map (\<lambda>x. case x of None \<Rightarrow> [] | Some v \<Rightarrow> ?G v)
                              (map (\<lambda>i. ?vs ! i) [0..<length ?vs]))"
    by (simp add: comp_def)
  also have "\<dots> = concat (map (\<lambda>x. case x of None \<Rightarrow> [] | Some v \<Rightarrow> ?G v) ?vs)"
    by (simp only: map_nth)
  also have "\<dots> = concat (map ?G (present ?vs))"
    by (rule concat_present)
  also have "\<dots> = cartesian_product (p # rest)" by simp
  finally show ?case by simp
qed

lemma getAllCombinations_pick:
  assumes wf: "wf_object options"
  shows "getAllCombinations options =
         Some (map (pick options) (if options = [] then [] else cartesian_product (positions options)))"
proof -
  have "cartesian_product options =
        map (\<lambda>c. concat (map (\<lambda>q. case element_at (nullish_list (get_prop options (fst q))) (snd q) of
                                       None \<Rightarrow> []
                                     | Some v \<Rightarrow> [(fst q, v)]) c))
            (cartesian_product (positions options))"
    by (rule cartesian_product_pick) (rule wf_object_candidates [OF wf])
  then have "cartesian_product options = map (pick options) (cartesian_product (positions options))"
    by (simp add: pick_def [abs_def])
  then show ?thesis
    using getAllCombinations_cartesian_product [OF wf] by simp
qed

lemma positions_present:
  assumes wf: "wf_object options"
    and c: "c \<in> set (cartesian_product (positions options))" and q: "q \<in> set c"
  shows "element_at (nullish_list (get_prop options (fst q))) (snd q) \<noteq> None"
proof -
  from c have "list_all2 (\<lambda>p q. fst q = fst p \<and> Some (snd q) \<in> set (nullish_list (Some (snd p))))
                 (positions options) c"
    by (rule cartesian_product_entries)
  moreover from q obtain i where i: "i < length c" "c ! i = q"
    by (auto simp: in_set_conv_nth)
  ultimately have "fst q = fst (positions options ! i) \<and>
      Some (snd q) \<in> set (nullish_list (Some (snd (positions options ! i))))"
    and "i < length (positions options)"
    by (auto dest: list_all2_nthD2 list_all2_lengthD)
  then obtain p' where p': "p' \<in> set (positions options)" "fst q = fst p'"
    "Some (snd q) \<in> set (nullish_list (Some (snd p')))"
    using nth_mem by blast
  from p'(1) obtain p where p: "p \<in> set options"
    "p' = (fst p, map_option (\<lambda>vs. map (\<lambda>i. map_option (\<lambda>v. i) (vs ! i)) [0..<length vs]) (snd p))"
    by (auto simp: positions_def)
  let ?vs = "nullish_list (Some (snd p))"
  have "snd q < length ?vs \<and> ?vs ! snd q \<noteq> None"
    using p'(3) p(2)
    by (cases "snd p") (auto simp: nullish_list_def map_option_case split: option.splits)
  moreover have "nullish_list (get_prop options (fst q)) = ?vs"
    using wf_object_candidates [OF wf p(1)] p'(2) p(2) by simp
  ultimately show ?thesis by (simp add: element_at_def)
qed

lemma getAllCombinations_positions:
  assumes wf: "wf_object options"
  shows "getAllCombinations (positions options) =
         Some (if options = [] then [] else cartesian_product (positions options))"
  using getAllCombinations_cartesian_product [OF wf_positions [OF wf]]
  by (simp add: positions_def)

lemma lexicographic_positions:
  assumes wf: "wf_object options"
  shows "lexicographic_by (Object_keys options)
           (if options = [] then [] else cartesian_product (positions options))"
  using cartesian_product_positions_lexicographic [of options] wf
  by (simp add: wf_object_def Object_keys_def lexicographic_by_def)

text \<open>
  C2, as amended. The combinations are listed in strictly ascending lexicographic order
  of the positions of their candidates, the properties being taken in the order in
  which \<^verbatim>\<open>Object.keys\<close> enumerates the option object (the first one the most
  significant) and the candidates of a property in the order of its array. That order
  is the declaration order when the declared names are distinct and none of them is
  an array index. Every position in the sequence is the position of a candidate that
  is present, so \<open>pick\<close> puts a candidate back at every property.
\<close>

theorem getAllCombinations_lexicographic:
  fixes decls :: "(string \<times> 'v jsarray option) list"
  defines "options \<equiv> object_literal decls"
  shows "\<exists>rp. getAllCombinations (positions options) = Some rp \<and>
              lexicographic_by (Object_keys options) rp \<and>
              getAllCombinations options = Some (map (pick options) rp) \<and>
              (\<forall>c \<in> set rp. \<forall>q \<in> set c.
                 element_at (nullish_list (get_prop options (fst q))) (snd q) \<noteq> None) \<and>
              (distinct (map fst decls) \<and> (\<forall>k \<in> set (map fst decls). array_index k = None)
                 \<longrightarrow> Object_keys options = map fst decls)"
proof -
  have wf: "wf_object options" unfolding options_def by (rule wf_object_literal)
  let ?rp = "if options = [] then [] else cartesian_product (positions options)"
  have "getAllCombinations (positions options) = Some ?rp"
    using wf by (rule getAllCombinations_positions)
  moreover have "lexicographic_by (Object_keys options) ?rp"
    using wf by (rule lexicographic_positions)
  moreover have "getAllCombinations options = Some (map (pick options) ?rp)"
    using wf by (rule getAllCombinations_pick)
  moreover have "\<forall>c \<in> set ?rp. \<forall>q \<in> set c.
      element_at (nullish_list (get_prop options (fst q))) (snd q) \<noteq> None"
    using positions_present [OF wf] by (cases "options = []") auto
  moreover have "Object_keys options = map fst decls"
    if "distinct (map fst decls) \<and> (\<forall>k \<in> set (map fst decls). array_index k = None)"
    using that object_literal_plain_names [of decls] by (simp add: options_def Object_keys_def)
  ultimately show ?thesis by blast
qed

theorem getAllCombinations_lexicographic_witness:
  "\<exists>rp. getAllCombinations (positions accordion_propOptions) = Some rp \<and>
         lexicographic_by [''variant'', ''triggerPosition'', ''disabled'', ''defaultOpen''] rp \<and>
         getAllCombinations accordion_propOptions = Some (map (pick accordion_propOptions) rp)"
  using getAllCombinations_lexicographic
    [of "[(''variant'',
             Some (dense [JString ''default'', JString ''bordered'', JString ''bottom-border''])),
          (''triggerPosition'', Some (dense [JString ''left'', JString ''right''])),
          (''disabled'', Some (dense [JBoolean True, JBoolean False])),
          (''defaultOpen'', Some (dense [JBoolean True, JBoolean False]))]"]
  unfolding accordion_propOptions_def [symmetric]
  by (auto simp add: array_index_def digit_value_def)

lemma reordered_propOptions_eq:
  "reordered_propOptions =
     [(''1'', Some [Some (JString ''p''), Some (JString ''q'')]),
      (''b'', Some [Some (JString ''x''), Some (JString ''y'')])]"
  by (simp add: reordered_propOptions_def object_eval dense_def)

text \<open>
  C2 as stated fails: declared after \<^verbatim>\<open>b\<close>, the property \<^verbatim>\<open>1\<close> is
  enumerated first and is the most significant one, so the sequence is not ordered by
  the declaration order \<^verbatim>\<open>b\<close>, \<^verbatim>\<open>1\<close>.
\<close>

theorem getAllCombinations_declaration_order_counterexample:
  "getAllCombinations reordered_propOptions =
     Some [ [(''1'', JString ''p''), (''b'', JString ''x'')],
            [(''1'', JString ''p''), (''b'', JString ''y'')],
            [(''1'', JString ''q''), (''b'', JString ''x'')],
            [(''1'', JString ''q''), (''b'', JString ''y'')] ] \<and>
   getAllCombinations (positions reordered_propOptions) =
     Some [ [(''1'', 0), (''b'', 0)], [(''1'', 0), (''b'', 1)],
            [(''1'', 1), (''b'', 0)], [(''1'', 1), (''b'', 1)] ] \<and>
   \<not> lexicographic_by [''b'', ''1'']
        [ [(''1'', 0), (''b'', 0)], [(''1'', 0), (''b'', 1)],
          [(''1'', 1), (''b'', 0)], [(''1'', 1), (''b'', 1)] ]"
  by (simp add: reordered_propOptions_eq positions_def combine_eval
      lexicographic_by_def position_vector_def)

section \<open>Properties of the serializers\<close>

subsection \<open>The serializers refine the reference rendering\<close>

lemma formatJSX_entry_kept:
  assumes "is_kept v"
  shows "formatJSX_entry (k, v) =
         (case attribute_text_or_placeholder k v of Inl e \<Rightarrow> Inl e | Inr a \<Rightarrow> Inr (Some a))"
proof (cases v)
  case (JBoolean b)
  with assms show ?thesis
    by (simp add: formatJSX_entry_def attribute_text_or_placeholder_def is_react_element_def is_kept_def)
qed (simp_all add: formatJSX_entry_def attribute_text_or_placeholder_def is_react_element_def
      split: sum.splits)

lemma generateJSXCode_entry_kept:
  assumes "is_kept v"
  shows "generateJSXCode_entry (k, v) =
         (case attribute_text k v of Inl e \<Rightarrow> Inl e | Inr a \<Rightarrow> Inr (Some a))"
proof (cases v)
  case (JBoolean b)
  with assms show ?thesis by (simp add: generateJSXCode_entry_def is_kept_def)
qed (simp_all add: generateJSXCode_entry_def split: sum.splits)

lemma attribute_text_prefix:
  "attribute_text k v = Inr a \<Longrightarrow> \<exists>rest. a = ''  '' @ k @ rest"
  by (cases "(k, v)" rule: attribute_text.cases) (auto split: sum.splits)

lemma attribute_text_or_placeholder_prefix:
  "attribute_text_or_placeholder k v = Inr a \<Longrightarrow> \<exists>rest. a = ''  '' @ k @ rest"
  by (auto simp: attribute_text_or_placeholder_def split: if_splits dest: attribute_text_prefix)

lemma entries_refine:
  assumes kept: "\<And>k v. is_kept v \<Longrightarrow>
            E (k, v) = (case R k v of Inl e \<Rightarrow> Inl e | Inr a \<Rightarrow> Inr (Some a))"
    and false: "\<And>k. E (k, JBoolean False) = Inr None"
    and nonempty: "\<And>k v a. R k v = Inr a \<Longrightarrow> a \<noteq> []"
  shows "map_sum id (filter Boolean_filter) (sequence (map E (filter not_empty_or_undefined props))) =
         map_sum id (map Some)
           (sequence (map (\<lambda>p. R (fst p) (snd p)) (filter (\<lambda>p. is_kept (snd p)) props)))"
proof (induction props)
  case Nil
  show ?case by simp
next
  case (Cons p ps)
  obtain k v where p: "p = (k, v)" by (cases p)
  show ?case
  proof (cases "is_kept v")
    case True
    then have neu: "not_empty_or_undefined p"
      by (simp add: p is_kept_def not_empty_or_undefined_def)
    show ?thesis
    proof (cases "R k v")
      case (Inl e)
      with True neu show ?thesis by (simp add: p kept)
    next
      case (Inr a)
      then have "Boolean_filter (Some a)" using nonempty by (simp add: Boolean_filter_def)
      with True neu Inr Cons.IH show ?thesis
        by (cases "sequence (map E (filter not_empty_or_undefined ps))";
            cases "sequence (map (\<lambda>p. R (fst p) (snd p)) (filter (\<lambda>p. is_kept (snd p)) ps))")
           (simp_all add: p kept)
    qed
  next
    case False
    show ?thesis
    proof (cases "v = JBoolean False")
      case True
      then have neu: "not_empty_or_undefined p"
        by (simp add: p not_empty_or_undefined_def)
      have nb: "\<not> Boolean_filter None" by (simp add: Boolean_filter_def)
      from True False neu nb Cons.IH show ?thesis
        by (cases "sequence (map E (filter not_empty_or_undefined ps))";
            cases "sequence (map (\<lambda>p. R (fst p) (snd p)) (filter (\<lambda>p. is_kept (snd p)) ps))")
           (simp_all add: p false)
    next
      case False
      with \<open>\<not> is_kept v\<close> have "\<not> not_empty_or_undefined p"
        by (simp add: p is_kept_def not_empty_or_undefined_def)
      with \<open>\<not> is_kept v\<close> Cons.IH show ?thesis by (simp add: p)
    qed
  qed
qed

lemma join_lines_Some: "join_lines (map Some attrs) = join ''\<newline>'' attrs"
  by (simp add: join_lines_def comp_def)

lemma serializer_refines:
  assumes eq: "map_sum id (filter Boolean_filter) (sequence (map E (filter not_empty_or_undefined props))) =
         map_sum id (map Some)
           (sequence (map (\<lambda>p. R (fst p) (snd p)) (filter (\<lambda>p. is_kept (snd p)) props)))"
  shows "(case sequence (map E (filter not_empty_or_undefined props)) of
            Inl e \<Rightarrow> Inl e
          | Inr rs \<Rightarrow> Inr (''<'' @ name @ ''\<newline>'' @ join_lines (filter Boolean_filter rs) @ ''\<newline>/>'')) =
         serialize R name props"
proof -
  let ?l = "sequence (map E (filter not_empty_or_undefined props))"
  let ?r = "sequence (map (\<lambda>p. R (fst p) (snd p)) (filter (\<lambda>p. is_kept (snd p)) props))"
  show ?thesis
  proof (cases ?l)
    case (Inl e)
    with eq have "?r = Inl e" by (cases ?r) simp_all
    with Inl show ?thesis by (simp add: serialize_def)
  next
    case (Inr rs)
    with eq obtain attrs where "?r = Inr attrs" "filter Boolean_filter rs = map Some attrs"
      by (cases ?r) simp_all
    with Inr show ?thesis by (simp add: serialize_def tag_def join_lines_Some)
  qed
qed

lemma attribute_text_nonempty: "attribute_text k v = Inr a \<Longrightarrow> a \<noteq> []"
  by (auto dest: attribute_text_prefix)

lemma attribute_text_or_placeholder_nonempty: "attribute_text_or_placeholder k v = Inr a \<Longrightarrow> a \<noteq> []"
  by (auto dest: attribute_text_or_placeholder_prefix)

lemma formatJSX_serialize:
  "formatJSX name props = serialize attribute_text_or_placeholder name props"
  unfolding formatJSX_def Object_entries_def Let_def
proof (rule serializer_refines, rule entries_refine)
  show "formatJSX_entry (k, v) =
        (case attribute_text_or_placeholder k v of Inl e \<Rightarrow> Inl e | Inr a \<Rightarrow> Inr (Some a))"
    if "is_kept v" for k v using that by (rule formatJSX_entry_kept)
  show "formatJSX_entry (k, JBoolean False) = Inr None" for k
    by (simp add: formatJSX_entry_def)
  show "a \<noteq> []" if "attribute_text_or_placeholder k v = Inr a" for k v a
    using that by (rule attribute_text_or_placeholder_nonempty)
qed

lemma generateJSXCode_serialize:
  "generateJSXCode name props = serialize attribute_text name props"
  unfolding generateJSXCode_def Object_entries_def Let_def
proof (rule serializer_refines, rule entries_refine)
  show "generateJSXCode_entry (k, v) =
        (case attribute_text k v of Inl e \<Rightarrow> Inl e | Inr a \<Rightarrow> Inr (Some a))"
    if "is_kept v" for k v using that by (rule generateJSXCode_entry_kept)
  show "generateJSXCode_entry (k, JBoolean False) = Inr None" for k
    by (simp add: generateJSXCode_entry_def)
  show "a \<noteq> []" if "attribute_text k v = Inr a" for k v a
    using that by (rule attribute_text_nonempty)
qed

lemma sequence_Inr_all2: "sequence rs = Inr xs \<Longrightarrow> list_all2 (\<lambda>r x. r = Inr x) rs xs"
  by (induction rs arbitrary: xs) (auto split: sum.splits)

lemma serialize_Inr:
  assumes "serialize R name props = Inr out"
  shows "\<exists>attrs. out = tag name attrs \<and>
           list_all2 (\<lambda>p a. R (fst p) (snd p) = Inr a) (filter (\<lambda>p. is_kept (snd p)) props) attrs"
proof -
  from assms obtain attrs
    where seq: "sequence (map (\<lambda>p. R (fst p) (snd p)) (filter (\<lambda>p. is_kept (snd p)) props)) = Inr attrs"
      and out: "out = tag name attrs"
    by (auto simp: serialize_def split: sum.splits)
  from seq have "list_all2 (\<lambda>r x. r = Inr x)
      (map (\<lambda>p. R (fst p) (snd p)) (filter (\<lambda>p. is_kept (snd p)) props)) attrs"
    by (rule sequence_Inr_all2)
  then have "list_all2 (\<lambda>p a. R (fst p) (snd p) = Inr a) (filter (\<lambda>p. is_kept (snd p)) props) attrs"
    by (simp add: list_all2_map1)
  with out show ?thesis by blast
qed


subsection \<open>The accordion pages\<close>

lemma accordion_currentProps_eq:
  "accordion_currentProps =
     [(''variant'', JString ''default''),
      (''triggerPosition'', JString ''right''),
      (''title'', JString ''Accordion Title''),
      (''content'', JString ''Accordion Content''),
      (''defaultOpen'', JBoolean False),
      (''disabled'', JBoolean False),
      (''itemValue'', JString ''item-1'')]"
  by (simp add: accordion_currentProps_def object_eval)

lemma accordion_staticProps_eq:
  "accordion_staticProps =
     [(''title'', JString ''Accordion Title''),
      (''content'', JString ''This is the accordion content.''),
      (''titleIcon'', JObject [(''$$typeof'', JSymbol), (''type'', JFunction), (''key'', JNull),
                               (''props'', JObject [(''className'', JString ''w-4 h-4'')])]),
      (''onOpenChange'', JFunction)]"
  by (simp add: accordion_staticProps_def object_eval)

lemmas serializer_eval = formatJSX_def generateJSXCode_def Object_entries_def
  not_empty_or_undefined_def formatJSX_entry_def generateJSXCode_entry_def Boolean_filter_def
  join_lines_def template_def quote_def escape_char_def

lemma generateJSXCode_accordion:
  \<open>generateJSXCode ''Accordion'' accordion_currentProps =
     Inr ''<Accordion\<newline>  variant="default"\<newline>  triggerPosition="right"\<newline>  title="Accordion Title"\<newline>  content="Accordion Content"\<newline>  itemValue="item-1"\<newline>/>''\<close>
  by (simp add: accordion_currentProps_eq serializer_eval)

lemma combinedProps_accordion:
  "combinedProps accordion_staticProps accordion_combo =
     [(''title'', JString ''Accordion Title''),
      (''content'', JString ''This is the accordion content.''),
      (''titleIcon'', JObject [(''$$typeof'', JSymbol), (''type'', JFunction), (''key'', JNull),
                               (''props'', JObject [(''className'', JString ''w-4 h-4'')])]),
      (''onOpenChange'', JFunction),
      (''variant'', JString ''default''), (''triggerPosition'', JString ''left''),
      (''disabled'', JBoolean True), (''defaultOpen'', JBoolean False)]"
  by (simp add: combinedProps_def spread_def Object_entries_def accordion_staticProps_eq
      accordion_combo_def define_prop_def comes_before_def array_index_def digit_value_def)

lemma formatJSX_accordion:
  \<open>formatJSX ''Accordion'' (combinedProps accordion_staticProps accordion_combo) =
     Inr ''<Accordion\<newline>  title="Accordion Title"\<newline>  content="This is the accordion content."\<newline>  titleIcon={<ReactElement />}\<newline>  onOpenChange={undefined}\<newline>  variant="default"\<newline>  triggerPosition="left"\<newline>  disabled\<newline>/>''\<close>
  by (simp add: combinedProps_accordion serializer_eval)

lemmas reference_eval = serialize_def tag_def is_kept_def is_react_element_def
  attribute_text_or_placeholder_def template_def quote_def escape_char_def

subsection \<open>Rendering, omission and layout\<close>

text \<open>
  C4, as amended. Both serializers render the entries whose value is neither the empty
  string, nor \<^verbatim>\<open>undefined\<close>, nor \<^verbatim>\<open>false\<close>, in their order: the value
  \<^verbatim>\<open>true\<close> as the bare name, a string as the name with the string in double
  quotes, and every other value as the name with the text of \<^verbatim>\<open>JSON.stringify\<close>
  in braces; except that \<^verbatim>\<open>formatJSX\<close> renders an object with a truthy
  \<^verbatim>\<open>$$typeof\<close> as the name with \<^verbatim>\<open>{<ReactElement />}\<close>. An exception of
  \<^verbatim>\<open>JSON.stringify\<close> is the exception of the serializer.
\<close>

theorem serializers_render:
  "generateJSXCode name props = serialize attribute_text name props \<and>
   formatJSX name props = serialize attribute_text_or_placeholder name props"
  by (simp only: generateJSXCode_serialize formatJSX_serialize)

theorem serializers_render_witness:
  \<open>serialize attribute_text ''Accordion'' accordion_currentProps =
     Inr ''<Accordion\<newline>  variant="default"\<newline>  triggerPosition="right"\<newline>  title="Accordion Title"\<newline>  content="Accordion Content"\<newline>  itemValue="item-1"\<newline>/>'' \<and>
   serialize attribute_text_or_placeholder ''Accordion''
       (combinedProps accordion_staticProps accordion_combo) =
     Inr ''<Accordion\<newline>  title="Accordion Title"\<newline>  content="This is the accordion content."\<newline>  titleIcon={<ReactElement />}\<newline>  onOpenChange={undefined}\<newline>  variant="default"\<newline>  triggerPosition="left"\<newline>  disabled\<newline>/>''\<close>
proof -
  have "generateJSXCode ''Accordion'' accordion_currentProps =
        serialize attribute_text ''Accordion'' accordion_currentProps"
    using serializers_render [of "''Accordion''" accordion_currentProps] by (rule conjunct1)
  moreover have "formatJSX ''Accordion'' (combinedProps accordion_staticProps accordion_combo) =
        serialize attribute_text_or_placeholder ''Accordion''
          (combinedProps accordion_staticProps accordion_combo)"
    using serializers_render [of "''Accordion''" "combinedProps accordion_staticProps accordion_combo"]
    by (rule conjunct2)
  ultimately show ?thesis
    using generateJSXCode_accordion formatJSX_accordion by (simp only: simp_thms)
qed

text \<open>
  C4 as stated fails for \<^verbatim>\<open>formatJSX\<close>: the icon of the accordion preview, a
  React element, is not rendered as a JSON-encoded expression.
\<close>

theorem formatJSX_react_element_counterexample:
  \<open>formatJSX ''Accordion''
      [(''titleIcon'', JObject [(''$$typeof'', JSymbol), (''type'', JFunction), (''key'', JNull),
                                (''props'', JObject [(''className'', JString ''w-4 h-4'')])])] =
     Inr ''<Accordion\<newline>  titleIcon={<ReactElement />}\<newline>/>'' \<and>
   serialize attribute_text ''Accordion''
      [(''titleIcon'', JObject [(''$$typeof'', JSymbol), (''type'', JFunction), (''key'', JNull),
                                (''props'', JObject [(''className'', JString ''w-4 h-4'')])])] =
     Inr ''<Accordion\<newline>  titleIcon={{"key":null,"props":{"className":"w-4 h-4"}}}\<newline>/>'' \<and>
   formatJSX ''Accordion''
      [(''titleIcon'', JObject [(''$$typeof'', JSymbol), (''type'', JFunction), (''key'', JNull),
                                (''props'', JObject [(''className'', JString ''w-4 h-4'')])])] \<noteq>
   serialize attribute_text ''Accordion''
      [(''titleIcon'', JObject [(''$$typeof'', JSymbol), (''type'', JFunction), (''key'', JNull),
                                (''props'', JObject [(''className'', JString ''w-4 h-4'')])])]\<close>
  by (simp add: serializer_eval reference_eval)



subsection \<open>Lines\<close>

lemma split_lines_nonempty: "split_lines str \<noteq> []"
  by (induction str) (auto split: list.splits)

lemma split_lines_append:
  "one_line a \<Longrightarrow> split_lines (a @ CHR ''\<newline>'' # b) = a # split_lines b"
  by (induction a) (auto simp: one_line_def)

lemma split_lines_one_line: "one_line a \<Longrightarrow> split_lines a = [a]"
  by (induction a) (auto simp: one_line_def)

lemma split_lines_join:
  assumes "attrs \<noteq> []" and "\<forall>attr \<in> set attrs. one_line attr"
  shows "split_lines (join ''\<newline>'' attrs @ CHR ''\<newline>'' # rest) = attrs @ split_lines rest"
  using assms
proof (induction "''\<newline>''" attrs rule: join.induct)
  case 1
  then show ?case by simp
next
  case (2 x)
  then show ?case by (simp add: split_lines_append)
next
  case (3 x y ys)
  have "split_lines (join ''\<newline>'' (x # y # ys) @ CHR ''\<newline>'' # rest) =
        split_lines (x @ CHR ''\<newline>'' # (join ''\<newline>'' (y # ys) @ CHR ''\<newline>'' # rest))"
    by simp
  also have "\<dots> = x # split_lines (join ''\<newline>'' (y # ys) @ CHR ''\<newline>'' # rest)"
    using 3 by (intro split_lines_append) simp
  also have "\<dots> = x # (y # ys) @ split_lines rest"
    using 3 by simp
  finally show ?case by simp
qed

lemma split_lines_tag:
  assumes "one_line name" and "\<forall>attr \<in> set attrs. one_line attr"
  shows "split_lines (''<'' @ name @ ''\<newline>'' @ join ''\<newline>'' attrs @ ''\<newline>/>'') =
         (''<'' @ name) # (if attrs = [] then [ [] ] else attrs) @ [''/>'']"
proof -
  have "one_line (''<'' @ name)" using assms(1) by (simp add: one_line_def)
  then have "split_lines ((''<'' @ name) @ CHR ''\<newline>'' # (join ''\<newline>'' attrs @ ''\<newline>/>'')) =
             (''<'' @ name) # split_lines (join ''\<newline>'' attrs @ ''\<newline>/>'')"
    by (rule split_lines_append)
  moreover have "split_lines (join ''\<newline>'' attrs @ ''\<newline>/>'') =
                 (if attrs = [] then [ [] ] else attrs) @ [''/>'']"
  proof (cases "attrs = []")
    case True
    then show ?thesis by simp
  next
    case False
    have "split_lines (join ''\<newline>'' attrs @ CHR ''\<newline>'' # ''/>'') = attrs @ split_lines ''/>''"
      using False assms(2) by (rule split_lines_join)
    with False show ?thesis by simp
  qed
  ultimately show ?thesis by simp
qed

text \<open>
  C10, as amended. The output of either serializer is \<^verbatim>\<open><\<close>, the name and a
  newline, then the attributes of the kept entries, in their order and separated by
  single newlines, then a newline and \<^verbatim>\<open>/>\<close>; every attribute starts with two
  spaces. When neither the name nor an attribute contains a newline, the lines of
  the output are the name line, one line for each attribute and \<^verbatim>\<open>/>\<close>. When
  every entry is filtered out, the output is the name line, an empty line and
  \<^verbatim>\<open>/>\<close>.
\<close>

theorem serializers_layout:
  assumes "(render = attribute_text_or_placeholder \<and> formatJSX name props = Inr out) \<or>
           (render = attribute_text \<and> generateJSXCode name props = Inr out)"
  shows "\<exists>attrs.
           list_all2 (\<lambda>entry attr. render (fst entry) (snd entry) = Inr attr \<and> take 2 attr = ''  '')
             (filter (\<lambda>entry. snd entry \<noteq> JString [] \<and> snd entry \<noteq> JUndefined \<and>
                               snd entry \<noteq> JBoolean False)
                     (Object_entries props)) attrs \<and>
           out = ''<'' @ name @ ''\<newline>'' @ join ''\<newline>'' attrs @ ''\<newline>/>'' \<and>
           (one_line name \<and> (\<forall>attr \<in> set attrs. one_line attr) \<longrightarrow>
              split_lines out = (''<'' @ name) # (if attrs = [] then [ [] ] else attrs) @ [''/>'']) \<and>
           ((\<forall>entry \<in> set (Object_entries props).
               snd entry = JString [] \<or> snd entry = JUndefined \<or> snd entry = JBoolean False)
            \<longrightarrow> out = ''<'' @ name @ ''\<newline>\<newline>/>'')"
proof -
  let ?kept = "filter (\<lambda>p. is_kept (snd p)) props"
  have ser: "serialize render name props = Inr out"
    using assms by (auto simp: formatJSX_serialize generateJSXCode_serialize)
  have prefix: "\<exists>rest. a = ''  '' @ k @ rest" if "render k v = Inr a" for k v a
    using assms that
    by (auto dest: attribute_text_prefix attribute_text_or_placeholder_prefix)
  from serialize_Inr [OF ser] obtain attrs where out: "out = tag name attrs"
    and all2: "list_all2 (\<lambda>p a. render (fst p) (snd p) = Inr a) ?kept attrs"
    by blast
  have "list_all2 (\<lambda>p a. render (fst p) (snd p) = Inr a \<and> take 2 a = ''  '') ?kept attrs"
    using all2
  proof (rule list_all2_mono)
    fix p a assume "render (fst p) (snd p) = Inr a"
    with prefix [of "fst p" "snd p" a] show "render (fst p) (snd p) = Inr a \<and> take 2 a = ''  ''"
      by auto
  qed
  then have tie: "list_all2 (\<lambda>entry attr. render (fst entry) (snd entry) = Inr attr \<and> take 2 attr = ''  '')
             (filter (\<lambda>entry. snd entry \<noteq> JString [] \<and> snd entry \<noteq> JUndefined \<and>
                               snd entry \<noteq> JBoolean False)
                     (Object_entries props)) attrs"
    by (simp add: is_kept_def Object_entries_def)
  have form: "out = ''<'' @ name @ ''\<newline>'' @ join ''\<newline>'' attrs @ ''\<newline>/>''"
    using out by (simp add: tag_def)
  have lines: "split_lines out = (''<'' @ name) # (if attrs = [] then [ [] ] else attrs) @ [''/>'']"
    if "one_line name \<and> (\<forall>attr \<in> set attrs. one_line attr)"
    unfolding form using that by (intro split_lines_tag) simp_all
  have empty: "out = ''<'' @ name @ ''\<newline>\<newline>/>''"
    if "\<forall>entry \<in> set (Object_entries props).
          snd entry = JString [] \<or> snd entry = JUndefined \<or> snd entry = JBoolean False"
  proof -
    from that have "?kept = []"
      by (auto simp: filter_empty_conv is_kept_def Object_entries_def)
    with all2 have "attrs = []" by simp
    with form show ?thesis by simp
  qed
  from tie form lines empty show ?thesis by blast
qed

theorem serializers_layout_witness:
  \<open>generateJSXCode ''Accordion'' accordion_currentProps =
     Inr ''<Accordion\<newline>  variant="default"\<newline>  triggerPosition="right"\<newline>  title="Accordion Title"\<newline>  content="Accordion Content"\<newline>  itemValue="item-1"\<newline>/>'' \<and>
   split_lines ''<Accordion\<newline>  variant="default"\<newline>  triggerPosition="right"\<newline>  title="Accordion Title"\<newline>  content="Accordion Content"\<newline>  itemValue="item-1"\<newline>/>'' =
     [''<Accordion'', ''  variant="default"'', ''  triggerPosition="right"'',
      ''  title="Accordion Title"'', ''  content="Accordion Content"'', ''  itemValue="item-1"'',
      ''/>'']\<close>
proof -
  note e = generateJSXCode_accordion
  let ?out = \<open>''<Accordion\<newline>  variant="default"\<newline>  triggerPosition="right"\<newline>  title="Accordion Title"\<newline>  content="Accordion Content"\<newline>  itemValue="item-1"\<newline>/>''\<close>
  have kept: "filter (\<lambda>entry. snd entry \<noteq> JString [] \<and> snd entry \<noteq> JUndefined \<and> snd entry \<noteq> JBoolean False)
          (Object_entries accordion_currentProps) =
        [(''variant'', JString ''default''), (''triggerPosition'', JString ''right''),
         (''title'', JString ''Accordion Title''), (''content'', JString ''Accordion Content''),
         (''itemValue'', JString ''item-1'')]"
    by (simp add: accordion_currentProps_eq Object_entries_def)
  from serializers_layout [of attribute_text "''Accordion''" accordion_currentProps ?out] e
  obtain attrs where
    all2: "list_all2 (\<lambda>entry attr. attribute_text (fst entry) (snd entry) = Inr attr \<and> take 2 attr = ''  '')
             [(''variant'', JString ''default''), (''triggerPosition'', JString ''right''),
              (''title'', JString ''Accordion Title''), (''content'', JString ''Accordion Content''),
              (''itemValue'', JString ''item-1'')] attrs"
    and lines: "one_line ''Accordion'' \<and> (\<forall>attr \<in> set attrs. one_line attr) \<longrightarrow>
       split_lines ?out = (''<'' @ ''Accordion'') # (if attrs = [] then [ [] ] else attrs) @ [''/>'']"
    unfolding kept by blast
  from all2 have attrs: \<open>attrs = [''  variant="default"'', ''  triggerPosition="right"'',
      ''  title="Accordion Title"'', ''  content="Accordion Content"'', ''  itemValue="item-1"'']\<close>
    by (auto simp: list_all2_Cons1)
  from lines have "split_lines ?out = (''<'' @ ''Accordion'') # attrs @ [''/>'']"
    unfolding attrs by (simp add: one_line_def)
  with e show ?thesis unfolding attrs by simp
qed

text \<open>
  C10 as stated fails: an attribute whose string value contains a newline is spread
  over two lines, the second of which is not indented.
\<close>

theorem serializers_multiline_counterexample:
  \<open>formatJSX ''Alert'' [(''description'', JString ''Line one\<newline>Line two'')] =
     Inr ''<Alert\<newline>  description="Line one\<newline>Line two"\<newline>/>'' \<and>
   generateJSXCode ''Alert'' [(''description'', JString ''Line one\<newline>Line two'')] =
     Inr ''<Alert\<newline>  description="Line one\<newline>Line two"\<newline>/>'' \<and>
   split_lines ''<Alert\<newline>  description="Line one\<newline>Line two"\<newline>/>'' =
     [''<Alert'', ''  description="Line one'', ''Line two"'', ''/>''] \<and>
   take 2 ''Line two"'' \<noteq> ''  ''\<close>
  by (simp add: serializer_eval)

subsection \<open>Exceptions\<close>

lemma sequence_all_Inr:
  "(\<And>r. r \<in> set rs \<Longrightarrow> \<exists>x. r = Inr x) \<Longrightarrow> \<exists>xs. sequence rs = Inr xs"
proof (induction rs)
  case Nil
  show ?case by simp
next
  case (Cons r rs)
  then obtain x xs where "r = Inr x" "sequence rs = Inr xs" by (metis list.set_intros)
  then show ?case by simp
qed

lemma sequence_throws:
  "(\<exists>e. sequence rs = Inl e) \<longleftrightarrow> (\<exists>r \<in> set rs. \<exists>e. r = Inl e)"
  by (induction rs) (auto split: sum.splits)

lemma TypeError_only: "(e :: error) = TypeError"
  by (cases e) simp

lemma JSON_stringify_throws:
  "(\<exists>e. JSON_stringify v = Inl e) \<longleftrightarrow> contains_bigint v \<or> is_cyclic v"
proof (induction v)
  case (JArray xs)
  have "(\<exists>e. JSON_stringify (JArray xs) = Inl e) \<longleftrightarrow> (\<exists>e. sequence (map JSON_stringify xs) = Inl e)"
    by (auto split: sum.splits)
  also have "\<dots> \<longleftrightarrow> (\<exists>x \<in> set xs. \<exists>e. JSON_stringify x = Inl e)"
    by (simp add: sequence_throws)
  also have "\<dots> \<longleftrightarrow> (\<exists>x \<in> set xs. contains_bigint x \<or> is_cyclic x)"
    using JArray by blast
  finally show ?case by (auto simp: list_ex_iff)
next
  case (JObject ps)
  let ?f = "\<lambda>p. case JSON_stringify (snd p) of Inl e \<Rightarrow> Inl e | Inr r \<Rightarrow> Inr (fst p, r)"
  have f: "(\<exists>e. ?f p = Inl e) \<longleftrightarrow> (\<exists>e. JSON_stringify (snd p) = Inl e)" for p
    by (auto split: sum.splits)
  have IH: "(\<exists>e. JSON_stringify (snd p) = Inl e) \<longleftrightarrow> contains_bigint (snd p) \<or> is_cyclic (snd p)"
    if "p \<in> set ps" for p
  proof -
    have "snd p \<in> Basic_BNFs.snds p" by (cases p) simp
    with that show ?thesis by (rule JObject.IH)
  qed
  have "(\<exists>e. JSON_stringify (JObject ps) = Inl e) \<longleftrightarrow> (\<exists>e. sequence (map ?f ps) = Inl e)"
    by (auto split: sum.splits)
  also have "\<dots> \<longleftrightarrow> (\<exists>p \<in> set ps. \<exists>e. ?f p = Inl e)"
    by (simp add: sequence_throws)
  also have "\<dots> \<longleftrightarrow> (\<exists>p \<in> set ps. \<exists>e. JSON_stringify (snd p) = Inl e)"
    by (simp only: f)
  also have "\<dots> \<longleftrightarrow> (\<exists>p \<in> set ps. contains_bigint (snd p) \<or> is_cyclic (snd p))"
    using IH by blast
  finally show ?case by (auto simp: list_ex_iff)
qed simp_all

lemma attribute_text_throws:
  "(\<exists>e. attribute_text k v = Inl e) \<longleftrightarrow> contains_bigint v \<or> is_cyclic v"
proof -
  have "(\<exists>e. attribute_text k v = Inl e) \<longleftrightarrow> (\<exists>e. JSON_stringify v = Inl e)"
    by (cases "(k, v)" rule: attribute_text.cases) (auto split: sum.splits)
  then show ?thesis by (simp only: JSON_stringify_throws)
qed

lemma attribute_text_or_placeholder_throws:
  "(\<exists>e. attribute_text_or_placeholder k v = Inl e) \<longleftrightarrow>
   \<not> is_react_element v \<and> (contains_bigint v \<or> is_cyclic v)"
  using attribute_text_throws [of k v] by (simp add: attribute_text_or_placeholder_def)

lemma not_kept_plain: "\<not> is_kept v \<Longrightarrow> \<not> contains_bigint v \<and> \<not> is_cyclic v"
  by (auto simp: is_kept_def)

lemma serialize_throws:
  assumes "\<And>k v. (\<exists>e. render k v = Inl e) \<longleftrightarrow> P v"
    and "\<And>v. P v \<Longrightarrow> is_kept v"
  shows "serialize render name props = Inl TypeError \<longleftrightarrow> (\<exists>entry \<in> set props. P (snd entry))"
proof -
  let ?rs = "map (\<lambda>p. render (fst p) (snd p)) (filter (\<lambda>p. is_kept (snd p)) props)"
  have "serialize render name props = Inl TypeError \<longleftrightarrow> (\<exists>e. sequence ?rs = Inl e)"
    by (auto simp: serialize_def split: sum.splits intro: TypeError_only)
  also have "\<dots> \<longleftrightarrow> (\<exists>r \<in> set ?rs. \<exists>e. r = Inl e)"
    by (rule sequence_throws)
  also have "\<dots> \<longleftrightarrow> (\<exists>p \<in> set props. is_kept (snd p) \<and> (\<exists>e. render (fst p) (snd p) = Inl e))"
    unfolding set_map set_filter by blast
  also have "\<dots> \<longleftrightarrow> (\<exists>p \<in> set props. P (snd p))"
    using assms by blast
  finally show ?thesis .
qed

text \<open>
  C6, as amended. The error conditions of the serializers are those of
  \<^verbatim>\<open>JSON.stringify\<close>, whose \<^verbatim>\<open>TypeError\<close> neither of them catches:
  \<^verbatim>\<open>generateJSXCode\<close> throws exactly when some prop value contains a BigInt or is
  cyclic, \<^verbatim>\<open>formatJSX\<close> exactly when such a value is not an object with a truthy
  \<^verbatim>\<open>$$typeof\<close>. Otherwise the serializer returns a string of the form
  \<^verbatim>\<open><name ... />\<close>, in which \<^verbatim>\<open>formatJSX\<close> writes the placeholder
  \<^verbatim>\<open>{<ReactElement />}\<close> for every value that is an object with a truthy
  \<^verbatim>\<open>$$typeof\<close>, and both write \<^verbatim>\<open>{undefined}\<close> for every function.
\<close>

theorem serializers_error_conditions:
  "(formatJSX name props = Inl TypeError \<longleftrightarrow>
      (\<exists>entry \<in> set (Object_entries props).
         \<not> is_react_element (snd entry) \<and> (contains_bigint (snd entry) \<or> is_cyclic (snd entry)))) \<and>
   (generateJSXCode name props = Inl TypeError \<longleftrightarrow>
      (\<exists>entry \<in> set (Object_entries props). contains_bigint (snd entry) \<or> is_cyclic (snd entry))) \<and>
   (formatJSX name props \<noteq> Inl TypeError \<longrightarrow>
      (\<exists>attrs. formatJSX name props =
                 Inr (''<'' @ name @ ''\<newline>'' @ join ''\<newline>'' attrs @ ''\<newline>/>'') \<and>
         list_all2 (\<lambda>entry attr.
              (is_react_element (snd entry) \<longrightarrow> attr = ''  '' @ fst entry @ ''={<ReactElement />}'') \<and>
              (snd entry = JFunction \<longrightarrow> attr = ''  '' @ fst entry @ ''={undefined}''))
           (filter (\<lambda>entry. is_kept (snd entry)) (Object_entries props)) attrs)) \<and>
   (generateJSXCode name props \<noteq> Inl TypeError \<longrightarrow>
      (\<exists>attrs. generateJSXCode name props =
                 Inr (''<'' @ name @ ''\<newline>'' @ join ''\<newline>'' attrs @ ''\<newline>/>'') \<and>
         list_all2 (\<lambda>entry attr. snd entry = JFunction \<longrightarrow> attr = ''  '' @ fst entry @ ''={undefined}'')
           (filter (\<lambda>entry. is_kept (snd entry)) (Object_entries props)) attrs))"
proof -
  have f_throws: "formatJSX name props = Inl TypeError \<longleftrightarrow>
      (\<exists>entry \<in> set (Object_entries props).
         \<not> is_react_element (snd entry) \<and> (contains_bigint (snd entry) \<or> is_cyclic (snd entry)))"
    unfolding formatJSX_serialize Object_entries_def
    by (rule serialize_throws) (use attribute_text_or_placeholder_throws not_kept_plain in blast)+
  have g_throws: "generateJSXCode name props = Inl TypeError \<longleftrightarrow>
      (\<exists>entry \<in> set (Object_entries props). contains_bigint (snd entry) \<or> is_cyclic (snd entry))"
    unfolding generateJSXCode_serialize Object_entries_def
    by (rule serialize_throws) (use attribute_text_throws not_kept_plain in blast)+
  have f_returns: "\<exists>attrs. formatJSX name props =
                 Inr (''<'' @ name @ ''\<newline>'' @ join ''\<newline>'' attrs @ ''\<newline>/>'') \<and>
         list_all2 (\<lambda>entry attr.
              (is_react_element (snd entry) \<longrightarrow> attr = ''  '' @ fst entry @ ''={<ReactElement />}'') \<and>
              (snd entry = JFunction \<longrightarrow> attr = ''  '' @ fst entry @ ''={undefined}''))
           (filter (\<lambda>entry. is_kept (snd entry)) (Object_entries props)) attrs"
    if "formatJSX name props \<noteq> Inl TypeError"
  proof -
    from that obtain out where out: "serialize attribute_text_or_placeholder name props = Inr out"
      unfolding formatJSX_serialize
      by (cases "serialize attribute_text_or_placeholder name props") (auto simp: TypeError_only)
    from serialize_Inr [OF out] obtain attrs where "out = tag name attrs"
      and fa: "list_all2 (\<lambda>p a. attribute_text_or_placeholder (fst p) (snd p) = Inr a)
                 (filter (\<lambda>p. is_kept (snd p)) props) attrs"
      by blast
    moreover have "list_all2 (\<lambda>entry attr.
           (is_react_element (snd entry) \<longrightarrow> attr = ''  '' @ fst entry @ ''={<ReactElement />}'') \<and>
           (snd entry = JFunction \<longrightarrow> attr = ''  '' @ fst entry @ ''={undefined}''))
          (filter (\<lambda>p. is_kept (snd p)) props) attrs"
      using fa
    proof (rule list_all2_mono)
      fix p a assume "attribute_text_or_placeholder (fst p) (snd p) = Inr a"
      then show "(is_react_element (snd p) \<longrightarrow> a = ''  '' @ fst p @ ''={<ReactElement />}'') \<and>
                 (snd p = JFunction \<longrightarrow> a = ''  '' @ fst p @ ''={undefined}'')"
        by (auto simp: attribute_text_or_placeholder_def is_react_element_def template_def
            split: if_splits)
    qed
    ultimately show ?thesis
      using out unfolding formatJSX_serialize tag_def Object_entries_def by blast
  qed
  have g_returns: "\<exists>attrs. generateJSXCode name props =
                 Inr (''<'' @ name @ ''\<newline>'' @ join ''\<newline>'' attrs @ ''\<newline>/>'') \<and>
         list_all2 (\<lambda>entry attr. snd entry = JFunction \<longrightarrow> attr = ''  '' @ fst entry @ ''={undefined}'')
           (filter (\<lambda>entry. is_kept (snd entry)) (Object_entries props)) attrs"
    if "generateJSXCode name props \<noteq> Inl TypeError"
  proof -
    from that obtain out where out: "serialize attribute_text name props = Inr out"
      unfolding generateJSXCode_serialize
      by (cases "serialize attribute_text name props") (auto simp: TypeError_only)
    from serialize_Inr [OF out] obtain attrs where "out = tag name attrs"
      and ga: "list_all2 (\<lambda>p a. attribute_text (fst p) (snd p) = Inr a)
                 (filter (\<lambda>p. is_kept (snd p)) props) attrs"
      by blast
    moreover have "list_all2 (\<lambda>entry attr. snd entry = JFunction \<longrightarrow> attr = ''  '' @ fst entry @ ''={undefined}'')
          (filter (\<lambda>p. is_kept (snd p)) props) attrs"
      using ga
    proof (rule list_all2_mono)
      fix p a assume "attribute_text (fst p) (snd p) = Inr a"
      then show "snd p = JFunction \<longrightarrow> a = ''  '' @ fst p @ ''={undefined}''"
        by (auto simp: template_def)
    qed
    ultimately show ?thesis
      using out unfolding generateJSXCode_serialize tag_def Object_entries_def by blast
  qed
  from f_throws g_throws f_returns g_returns show ?thesis by blast
qed

theorem serializers_error_conditions_witness:
  \<open>formatJSX ''Accordion'' (combinedProps accordion_staticProps accordion_combo) \<noteq> Inl TypeError \<and>
   (\<exists>attrs. formatJSX ''Accordion'' (combinedProps accordion_staticProps accordion_combo) =
              Inr (''<'' @ ''Accordion'' @ ''\<newline>'' @ join ''\<newline>'' attrs @ ''\<newline>/>'') \<and>
            attrs ! 2 = ''  titleIcon={<ReactElement />}'' \<and>
            attrs ! 3 = ''  onOpenChange={undefined}'')\<close>
proof -
  let ?props = "combinedProps accordion_staticProps accordion_combo"
  have "\<not> (\<exists>entry \<in> set (Object_entries ?props).
         \<not> is_react_element (snd entry) \<and> (contains_bigint (snd entry) \<or> is_cyclic (snd entry)))"
    by (simp add: combinedProps_accordion Object_entries_def is_react_element_def)
  with serializers_error_conditions [of "''Accordion''" ?props]
  have ok: "formatJSX ''Accordion'' ?props \<noteq> Inl TypeError" by blast
  with serializers_error_conditions [of "''Accordion''" ?props]
  obtain attrs where out: "formatJSX ''Accordion'' ?props =
        Inr (''<'' @ ''Accordion'' @ ''\<newline>'' @ join ''\<newline>'' attrs @ ''\<newline>/>'')"
    and all2: "list_all2 (\<lambda>entry attr.
                 (is_react_element (snd entry) \<longrightarrow> attr = ''  '' @ fst entry @ ''={<ReactElement />}'') \<and>
                 (snd entry = JFunction \<longrightarrow> attr = ''  '' @ fst entry @ ''={undefined}''))
              (filter (\<lambda>entry. is_kept (snd entry)) (Object_entries ?props)) attrs"
    by blast
  have kept: "filter (\<lambda>entry. is_kept (snd entry)) (Object_entries ?props) =
     [(''title'', JString ''Accordion Title''),
      (''content'', JString ''This is the accordion content.''),
      (''titleIcon'', JObject [(''$$typeof'', JSymbol), (''type'', JFunction), (''key'', JNull),
                               (''props'', JObject [(''className'', JString ''w-4 h-4'')])]),
      (''onOpenChange'', JFunction),
      (''variant'', JString ''default''), (''triggerPosition'', JString ''left''),
      (''disabled'', JBoolean True)]"
    by (simp add: combinedProps_accordion Object_entries_def is_kept_def)
  from all2 have "attrs ! 2 = ''  titleIcon={<ReactElement />}'' \<and>
                  attrs ! 3 = ''  onOpenChange={undefined}''"
    unfolding kept by (auto simp: list_all2_Cons1 is_react_element_def)
  with out ok show ?thesis by blast
qed

text \<open>
  C6 as stated fails: on a BigInt and on a cyclic value \<^verbatim>\<open>JSON.stringify\<close>
  throws a \<^verbatim>\<open>TypeError\<close>, which neither serializer catches.
\<close>

theorem serializers_throw_counterexample:
  "formatJSX ''Component'' [(''count'', JBigInt 10)] = Inl TypeError \<and>
   generateJSXCode ''Component'' [(''count'', JBigInt 10)] = Inl TypeError \<and>
   formatJSX ''Component'' [(''data'', JObject [(''self'', JCircular)])] = Inl TypeError \<and>
   generateJSXCode ''Component'' [(''data'', JObject [(''self'', JCircular)])] = Inl TypeError"
  by (simp add: serializer_eval)

section \<open>Properties of the browser\<close>









lemma combination_card_symbol:
  "ToString JSymbol = Inl TypeError \<Longrightarrow>
   combination_card ToString name staticProps [(''icon'', JSymbol)] = Inl TypeError"
  by (simp add: combination_card_def label_entry_def Object_entries_def)

end
